theory Spec2Isabelle
  imports Main
begin

section \<open>Timestamps\<close>

text \<open>
  A \<^verbatim>\<open>pd.Timestamp\<close> without time zone is the number of nanoseconds since the epoch.
  \<^verbatim>\<open>.hour\<close> and \<^verbatim>\<open>.minute\<close> read the wall-clock fields,
  \<^verbatim>\<open>replace(hour=0, minute=0, second=0)\<close> keeps the date and the part below one second,
  and \<^verbatim>\<open>Timedelta.days\<close> is the floor of the difference in days.
\<close>

type_synonym timestamp = int

definition ns_per_second :: int where
  "ns_per_second = 1000000000"

definition ns_per_minute :: int where
  "ns_per_minute = 60000000000"

definition ns_per_hour :: int where
  "ns_per_hour = 3600000000000"

definition ns_per_day :: int where
  "ns_per_day = 86400000000000"

definition hour :: "timestamp \<Rightarrow> int" where
  "hour t = (t div ns_per_hour) mod 24"

definition minute :: "timestamp \<Rightarrow> int" where
  "minute t = (t div ns_per_minute) mod 60"

definition replace_hms0 :: "timestamp \<Rightarrow> timestamp" where
  "replace_hms0 t = t - t mod ns_per_day + t mod ns_per_second"

definition days :: "int \<Rightarrow> int" where
  "days delta = delta div ns_per_day"

section \<open>Data model\<close>

text \<open>
  An exception that leaves a method of the recorder is a value \<open>Inl\<close>. It travels up to
  \<^verbatim>\<open>process_loop\<close>, which logs it and gives the entity up for the run; the state reached
  before it was raised is not tracked any further.
\<close>

type_synonym ref = nat

datatype exn = KeyError | IndexError | TypeError | ValueError | SourceError

record entity =
  e_id :: string
  e_code :: string
  e_name :: "string option"
  e_timestamp :: "timestamp option"

text \<open>
  An instance of \<^verbatim>\<open>data_schema\<close>; \<open>d_fields\<close> holds what the field mapping wrote. A
  schema without the column \<^verbatim>\<open>name\<close> has \<open>d_name = None\<close>.
\<close>

record domain =
  d_id :: string
  d_code :: string
  d_name :: "string option"
  d_entity_id :: string
  d_timestamp :: "timestamp option"
  d_fields :: "(string \<times> string) list"

text \<open>
  What \<^verbatim>\<open>record\<close> returns: an object of the schema built by the fetch step (a reference),
  or a raw dictionary.
\<close>

datatype original = Built ref | Raw "(string \<times> string) list"

datatype log_entry =
    LogIgnore string
  | LogException exn
  | LogPersist string "timestamp option" "timestamp option"
  | LogJustDuplicated nat
  | LogCloseTime string timestamp
  | LogRequest string int
  | LogUpdate string
  | LogWarning

text \<open>
  The objects of one run live in \<open>heap\<close>, so that two list positions holding the same object
  are seen as such. \<open>added\<close> lists the batches given to \<^verbatim>\<open>session.add_all\<close> and committed,
  \<open>deleted\<close> the objects given to \<^verbatim>\<open>session.delete\<close>, \<open>fetches\<close> the calls of \<^verbatim>\<open>record\<close>.
\<close>

record state =
  heap :: "ref \<Rightarrow> domain"
  next_ref :: ref
  uuid_count :: nat
  logged :: "log_entry list"
  added :: "ref list list"
  deleted :: "ref list"
  fetches :: "(timestamp option \<times> timestamp option \<times> int \<times> timestamp list option) list"
  security_timestamps_map :: "string \<Rightarrow> timestamp list option"

datatype recorder_kind = TimeSeries | FixedCycle | Timestamps

record recorder =
  kind :: recorder_kind
  force_update :: bool
  default_size :: int
  real_time :: bool
  fix_duplicate_way :: string
  start_timestamp :: "timestamp option"
  end_timestamp :: "timestamp option"
  close_hour :: "int option"
  close_minute :: "int option"
  level :: string
  one_day_trading_minutes :: int

text \<open>
  The collaborators that are not part of the recorder module: the time utilities, the
  query interface of the store, the field mapping, the fetch step and the token source.
  \<open>get_data_by_id\<close> is the query of \<^verbatim>\<open>generate_domain\<close> (entity id, record id) and
  \<open>get_data_latest\<close> the query of \<^verbatim>\<open>get_latest_saved_record\<close> (entity id, limit), latest
  first. Both answer with references: asking twice for the same id gives the same objects,
  and nothing is committed between the queries of one cycle and its \<^verbatim>\<open>persist\<close>.
  \<open>uuid1\<close> gives the token of the \<open>n\<close>-th call. \<open>to_pd_timestamp\<close>, \<open>date_delta\<close> and
  \<open>record_call\<close> may raise; the recorder catches the first two.
\<close>

record services =
  to_time_str :: "string \<Rightarrow> string"
  to_pd_timestamp :: "string \<Rightarrow> exn + timestamp option"
  fill_domain_from_dict :: "domain \<Rightarrow> (string \<times> string) list \<Rightarrow> domain"
  name_column :: bool
  get_data_by_id :: "string \<Rightarrow> string \<Rightarrow> ref list"
  get_data_latest :: "string \<Rightarrow> nat \<Rightarrow> ref list"
  uuid1 :: "nat \<Rightarrow> string"
  is_in_same_interval :: "timestamp option \<Rightarrow> timestamp option \<Rightarrow> string \<Rightarrow> bool"
  count_mins_before_close_time :: "timestamp \<Rightarrow> int option \<Rightarrow> int option \<Rightarrow> int"
  is_same_date :: "timestamp \<Rightarrow> timestamp \<Rightarrow> bool"
  date_delta :: "timestamp \<Rightarrow> timestamp \<Rightarrow> exn + int"
  evaluate_size_from_timestamp ::
    "timestamp \<Rightarrow> timestamp \<Rightarrow> string \<Rightarrow> int \<Rightarrow> timestamp list \<Rightarrow> int"
  record_call ::
    "entity \<Rightarrow> timestamp option \<Rightarrow> timestamp option \<Rightarrow> int \<Rightarrow> timestamp list option
      \<Rightarrow> exn + original list"
  init_timestamps :: "entity \<Rightarrow> timestamp list"

type_synonym window =
  "timestamp option \<times> timestamp option \<times> timestamp option \<times> int \<times> timestamp list option"

section \<open>TimeSeriesDataRecorder\<close>

definition trade_at :: "timestamp list \<Rightarrow> nat \<Rightarrow> exn + timestamp option" where
  "trade_at trade_day trade_index =
     (if length trade_day > 0 then
        (if trade_index < length trade_day then Inr (Some (trade_day ! trade_index))
         else Inl IndexError)
      else Inr None)"

definition not_listed_yet :: "timestamp \<Rightarrow> entity \<Rightarrow> bool" where
  "not_listed_yet now entity =
     (case e_timestamp entity of None \<Rightarrow> False | Some t \<Rightarrow> t \<ge> now)"

definition get_latest_saved_record :: "services \<Rightarrow> entity \<Rightarrow> ref option" where
  "get_latest_saved_record sv entity =
     (case get_data_latest sv (e_id entity) 1 of [] \<Rightarrow> None | r # _ \<Rightarrow> Some r)"

definition latest_known :: "services \<Rightarrow> state \<Rightarrow> entity \<Rightarrow> timestamp option" where
  "latest_known sv st entity =
     (case get_latest_saved_record sv entity of
        Some r \<Rightarrow> d_timestamp (heap st r)
      | None \<Rightarrow> e_timestamp entity)"

definition effective_start :: "recorder \<Rightarrow> timestamp \<Rightarrow> timestamp" where
  "effective_start self latest_timestamp =
     (case start_timestamp self of Some s \<Rightarrow> max latest_timestamp s | None \<Rightarrow> latest_timestamp)"

definition evaluate_time_series ::
  "recorder \<Rightarrow> services \<Rightarrow> state \<Rightarrow> timestamp \<Rightarrow> entity \<Rightarrow> timestamp list
    \<Rightarrow> exn + (window \<times> state)" where
  "evaluate_time_series self sv st now entity trade_day =
     (case trade_at trade_day 0 of
        Inl e \<Rightarrow> Inl e
      | Inr trade \<Rightarrow>
          if not_listed_yet now entity then Inr ((e_timestamp entity, None, trade, 0, None), st)
          else
            (case latest_known sv st entity of
               None \<Rightarrow>
                 Inr ((start_timestamp self, end_timestamp self, trade, default_size self, None), st)
             | Some lt \<Rightarrow>
                 (let latest_timestamp = effective_start self lt;
                      size = (case end_timestamp self of
                                Some e \<Rightarrow> if latest_timestamp \<ge> e then 0 else default_size self
                              | None \<Rightarrow> days (replace_hms0 now - latest_timestamp))
                  in Inr ((Some latest_timestamp, end_timestamp self, trade, size, None), st))))"

definition generate_domain_id :: "services \<Rightarrow> entity \<Rightarrow> (string \<times> string) list \<Rightarrow> exn + string" where
  "generate_domain_id sv entity original_data =
     (case map_of original_data ''timestamp'' of
        None \<Rightarrow> Inl KeyError
      | Some v \<Rightarrow> Inr (e_id entity @ ''_'' @ to_time_str sv v))"

text \<open>
  The object built for an id the store does not hold. A source timestamp that does not
  parse is logged and the object gets no timestamp.
\<close>

definition new_domain_item ::
  "services \<Rightarrow> state \<Rightarrow> entity \<Rightarrow> string \<Rightarrow> string \<Rightarrow> ref \<times> state" where
  "new_domain_item sv st entity the_id timestamp_str =
     (let (timestamp, st1) =
            (case to_pd_timestamp sv timestamp_str of
               Inl e \<Rightarrow> (None, st\<lparr>logged := logged st @ [LogException e]\<rparr>)
             | Inr t \<Rightarrow> (t, st));
          domain_item = \<lparr>d_id = the_id, d_code = e_code entity,
                         d_name = (if name_column sv then e_name entity else None),
                         d_entity_id = e_id entity, d_timestamp = timestamp, d_fields = []\<rparr>;
          r = next_ref st1
      in (r, st1\<lparr>heap := (heap st1)(r := domain_item), next_ref := Suc r\<rparr>))"

definition fill_item :: "services \<Rightarrow> state \<Rightarrow> ref \<Rightarrow> (string \<times> string) list \<Rightarrow> state" where
  "fill_item sv st r original_data =
     st\<lparr>heap := (heap st)(r := fill_domain_from_dict sv (heap st r) original_data)\<rparr>"

definition generate_domain ::
  "recorder \<Rightarrow> services \<Rightarrow> state \<Rightarrow> entity \<Rightarrow> original
    \<Rightarrow> exn + ((bool \<times> ref option) \<times> state)" where
  "generate_domain self sv st entity original_data =
     (case original_data of
        Built r \<Rightarrow> Inr ((True, Some r), st)
      | Raw d \<Rightarrow>
          (case generate_domain_id sv entity d of
             Inl e \<Rightarrow> Inl e
           | Inr the_id \<Rightarrow>
               (case get_data_by_id sv (e_id entity) the_id of
                  [] \<Rightarrow>
                    (case map_of d ''timestamp'' of
                       None \<Rightarrow> Inl KeyError
                     | Some timestamp_str \<Rightarrow>
                         (let (r, st1) = new_domain_item sv st entity the_id timestamp_str
                          in Inr ((True, Some r), fill_item sv st1 r d)))
                | r # _ \<Rightarrow>
                    if \<not> force_update self
                    then Inr ((False, None), st\<lparr>logged := logged st @ [LogIgnore the_id]\<rparr>)
                    else Inr ((False, Some r), fill_item sv st r d))))"

text \<open>
  \<^verbatim>\<open>persist\<close>: the interval written to the log compares the timestamps at the first and
  the last position; a comparison that raises (a missing timestamp) is caught and the two
  positions are taken as they are.
\<close>

definition first_last ::
  "timestamp option \<Rightarrow> timestamp option \<Rightarrow> timestamp option \<times> timestamp option" where
  "first_last t0 tn =
     (case (t0, tn) of
        (Some a, Some b) \<Rightarrow> if a \<ge> b then (tn, t0) else (t0, tn)
      | _ \<Rightarrow> (t0, tn))"

definition persist :: "state \<Rightarrow> entity \<Rightarrow> ref list \<Rightarrow> state" where
  "persist st entity domain_list =
     (if domain_list \<noteq> [] then
        (let (first_timestamp, last_timestamp) =
               first_last (d_timestamp (heap st (hd domain_list)))
                          (d_timestamp (heap st (last domain_list)))
         in st\<lparr>logged := logged st @ [LogPersist (e_id entity) first_timestamp last_timestamp],
               added := added st @ [domain_list]\<rparr>)
      else st)"

text \<open>The loop of \<^verbatim>\<open>process_duplicate\<close>; \<open>Aborted\<close> is its early return.\<close>

datatype loop_result = Aborted bool state | Completed bool "ref list" state

definition regenerate_id :: "services \<Rightarrow> state \<Rightarrow> ref \<Rightarrow> state" where
  "regenerate_id sv st r =
     st\<lparr>heap := (heap st)(r := (heap st r)\<lparr>d_id := d_id (heap st r) @ ''_'' @ uuid1 sv (uuid_count st)\<rparr>),
        uuid_count := Suc (uuid_count st)\<rparr>"

fun process_items ::
  "recorder \<Rightarrow> services \<Rightarrow> entity \<Rightarrow> original list \<Rightarrow> bool \<Rightarrow> ref list \<Rightarrow> state
    \<Rightarrow> exn + loop_result" where
  "process_items self sv entity_item [] all_duplicated domain_list st =
     Inr (Completed all_duplicated domain_list st)"
| "process_items self sv entity_item (original_item # rest) all_duplicated domain_list st =
     (case generate_domain self sv st entity_item original_item of
        Inl e \<Rightarrow> Inl e
      | Inr ((got_new_data, domain_item), st1) \<Rightarrow>
          (let all_duplicated1 = (if got_new_data then False else all_duplicated)
           in case domain_item of
                None \<Rightarrow> process_items self sv entity_item rest all_duplicated1 domain_list st1
              | Some r \<Rightarrow>
                  if filter (\<lambda>item. d_id (heap st1 item) = d_id (heap st1 r)) domain_list \<noteq> []
                  then
                    (if fix_duplicate_way self \<noteq> ''add'' then Inr (Aborted all_duplicated1 st1)
                     else process_items self sv entity_item rest all_duplicated1
                            (domain_list @ [r]) (regenerate_id sv st1 r))
                  else process_items self sv entity_item rest all_duplicated1
                         (domain_list @ [r]) st1))"

definition process_duplicate ::
  "recorder \<Rightarrow> services \<Rightarrow> state \<Rightarrow> original list \<Rightarrow> entity
    \<Rightarrow> exn + ((bool \<times> bool) \<times> state)" where
  "process_duplicate self sv st original_list entity_item =
     (if original_list \<noteq> [] then
        (case process_items self sv entity_item original_list True [] st of
           Inl e \<Rightarrow> Inl e
         | Inr (Aborted all_duplicated st1) \<Rightarrow> Inr ((True, all_duplicated), st1)
         | Inr (Completed all_duplicated domain_list st1) \<Rightarrow>
             if domain_list \<noteq> [] then Inr ((False, all_duplicated), persist st1 entity_item domain_list)
             else Inr ((False, all_duplicated),
                       st1\<lparr>logged := logged st1 @ [LogJustDuplicated (length original_list)]\<rparr>))
      else Inr ((False, True), st))"

definition process_realtime ::
  "recorder \<Rightarrow> state \<Rightarrow> entity \<Rightarrow> original list \<Rightarrow> bool \<Rightarrow> timestamp \<Rightarrow> bool \<times> state" where
  "process_realtime self st entity_item original_list all_duplicated now =
     (if original_list = [] \<or> all_duplicated then
        (if \<not> real_time self then (True, st)
         else
           (case (close_hour self, close_minute self) of
              (Some ch, Some cm) \<Rightarrow>
                if hour now \<ge> ch then
                  (if minute now - cm \<ge> 5
                   then (True, st\<lparr>logged := logged st @ [LogCloseTime (e_id entity_item) now]\<rparr>)
                   else (False, st))
                else (False, st)
            | _ \<Rightarrow> (False, st)))
      else (False, st))"

section \<open>FixedCycleDataRecorder\<close>

definition get_latest_saved_record_fixed ::
  "recorder \<Rightarrow> services \<Rightarrow> state \<Rightarrow> entity \<Rightarrow> ref option \<times> state" where
  "get_latest_saved_record_fixed self sv st entity =
     (case get_data_latest sv (e_id entity) 2 of
        [] \<Rightarrow> (None, st)
      | [r0, r1] \<Rightarrow>
          if is_in_same_interval sv (d_timestamp (heap st r0)) (d_timestamp (heap st r1)) (level self)
          then (Some r1, st\<lparr>deleted := deleted st @ [r0]\<rparr>)
          else (Some r0, st)
      | r0 # _ \<Rightarrow> (Some r0, st))"

fun list_index :: "timestamp list \<Rightarrow> timestamp \<Rightarrow> nat option" where
  "list_index [] x = None"
| "list_index (y # ys) x =
     (if y = x then Some 0 else (case list_index ys x of None \<Rightarrow> None | Some i \<Rightarrow> Some (Suc i)))"

text \<open>
  The end date of the entity in \<^verbatim>\<open>stock_detail\<close> and its distance to \<open>now\<close>; a failed
  lookup or a failed \<^verbatim>\<open>date_delta\<close> gives \<open>-1\<close> days.
\<close>

definition end_date_days ::
  "services \<Rightarrow> (string \<Rightarrow> timestamp option) \<Rightarrow> timestamp \<Rightarrow> entity \<Rightarrow> timestamp option \<times> int" where
  "end_date_days sv stock_detail now entity =
     (case stock_detail (e_id entity) of
        None \<Rightarrow> (None, - 1)
      | Some end_date \<Rightarrow>
          (case date_delta sv now end_date of
             Inl e \<Rightarrow> (Some end_date, - 1)
           | Inr n \<Rightarrow> (Some end_date, n)))"

definition evaluate_fixed_cycle ::
  "recorder \<Rightarrow> services \<Rightarrow> state \<Rightarrow> timestamp \<Rightarrow> entity \<Rightarrow> timestamp list
    \<Rightarrow> (string \<Rightarrow> timestamp option) \<Rightarrow> exn + (window \<times> state)" where
  "evaluate_fixed_cycle self sv st now entity trade_day stock_detail =
     (if not_listed_yet now entity then
        (case trade_at trade_day 0 of
           Inl e \<Rightarrow> Inl e
         | Inr trade \<Rightarrow> Inr ((e_timestamp entity, None, trade, 0, None), st))
      else
        (let (latest_saved_record, st1) = get_latest_saved_record_fixed self sv st entity;
             latest_saved_timestamp =
               (case latest_saved_record of
                  Some r \<Rightarrow> d_timestamp (heap st1 r)
                | None \<Rightarrow> e_timestamp entity)
         in case latest_saved_timestamp of
              None \<Rightarrow>
                (case trade_at trade_day 0 of
                   Inl e \<Rightarrow> Inl e
                 | Inr trade \<Rightarrow> Inr ((None, None, trade, default_size self, None), st1))
            | Some lt \<Rightarrow>
                (let trade_index1 =
                       (if length trade_day > 0
                           \<and> count_mins_before_close_time sv now (close_hour self) (close_minute self) > 0
                           \<and> is_same_date sv (hd trade_day) now
                        then 1 else 0);
                     (end_date, n) = end_date_days sv stock_detail now entity;
                     (trade_index, st2) =
                       (if n > 0 then
                          (case end_date of
                             None \<Rightarrow> (trade_index1, st1)
                           | Some d \<Rightarrow>
                               (case list_index trade_day d of
                                  Some i \<Rightarrow> (i, st1)
                                | None \<Rightarrow> (trade_index1, st1\<lparr>logged := logged st1 @ [LogWarning]\<rparr>)))
                        else (trade_index1, st1));
                     size = evaluate_size_from_timestamp sv lt now (level self)
                              (one_day_trading_minutes self) (drop trade_index trade_day)
                 in case trade_at trade_day trade_index of
                      Inl e \<Rightarrow> Inl e
                    | Inr trade \<Rightarrow> Inr ((Some lt, None, trade, size, None), st2))))"

section \<open>TimestampsDataRecorder\<close>

definition cached_timestamps ::
  "recorder \<Rightarrow> services \<Rightarrow> state \<Rightarrow> entity \<Rightarrow> timestamp list \<times> state" where
  "cached_timestamps self sv st entity =
     (case security_timestamps_map st (e_id entity) of
        Some (t # ts) \<Rightarrow> (t # ts, st)
      | _ \<Rightarrow>
          (let timestamps0 = init_timestamps sv entity;
               timestamps1 = (case start_timestamp self of
                                Some s \<Rightarrow> filter (\<lambda>t. t \<ge> s) timestamps0
                              | None \<Rightarrow> timestamps0);
               timestamps2 = (case end_timestamp self of
                                Some e \<Rightarrow> filter (\<lambda>t. t \<le> e) timestamps1
                              | None \<Rightarrow> timestamps1)
           in (timestamps2,
               st\<lparr>security_timestamps_map := (security_timestamps_map st)(e_id entity := Some timestamps2)\<rparr>)))"

definition evaluate_timestamps ::
  "recorder \<Rightarrow> services \<Rightarrow> state \<Rightarrow> timestamp \<Rightarrow> entity \<Rightarrow> timestamp list
    \<Rightarrow> exn + (window \<times> state)" where
  "evaluate_timestamps self sv st now entity trade_day =
     (let (timestamps, st1) = cached_timestamps self sv st entity
      in case trade_at trade_day 0 of
           Inl e \<Rightarrow> Inl e
         | Inr trade \<Rightarrow>
             if timestamps = [] then Inr ((None, None, trade, 0, Some timestamps), st1)
             else
               (let sorted_timestamps = sort timestamps;
                    st2 = st1\<lparr>security_timestamps_map :=
                               (security_timestamps_map st1)(e_id entity := Some sorted_timestamps)\<rparr>
                in case get_latest_saved_record sv entity of
                     Some r \<Rightarrow>
                       (case d_timestamp (heap st2 r) of
                          None \<Rightarrow> Inl TypeError
                        | Some lt \<Rightarrow>
                            (let remaining = filter (\<lambda>t. t \<ge> lt) sorted_timestamps
                             in if remaining \<noteq> []
                                then Inr ((Some (hd remaining), Some (last remaining), trade,
                                           int (length remaining), Some remaining), st2)
                                else Inr ((None, None, trade, 0, None), st2)))
                   | None \<Rightarrow>
                       Inr ((Some (hd sorted_timestamps), Some (last sorted_timestamps), trade,
                             int (length sorted_timestamps), Some sorted_timestamps), st2)))"

section \<open>One cycle for one entity\<close>

definition evaluate_start_end_size_timestamps ::
  "recorder \<Rightarrow> services \<Rightarrow> state \<Rightarrow> timestamp \<Rightarrow> entity \<Rightarrow> timestamp list
    \<Rightarrow> (string \<Rightarrow> timestamp option) \<Rightarrow> exn + (window \<times> state)" where
  "evaluate_start_end_size_timestamps self sv st now entity trade_day stock_detail =
     (case kind self of
        TimeSeries \<Rightarrow> evaluate_time_series self sv st now entity trade_day
      | FixedCycle \<Rightarrow> evaluate_fixed_cycle self sv st now entity trade_day stock_detail
      | Timestamps \<Rightarrow> evaluate_timestamps self sv st now entity trade_day)"

definition process_entity ::
  "recorder \<Rightarrow> services \<Rightarrow> state \<Rightarrow> timestamp \<Rightarrow> entity \<Rightarrow> timestamp list
    \<Rightarrow> (string \<Rightarrow> timestamp option) \<Rightarrow> exn + (bool \<times> state)" where
  "process_entity self sv st now entity_item trade_day stock_detail =
     (case evaluate_start_end_size_timestamps self sv st now entity_item trade_day stock_detail of
        Inl e \<Rightarrow> Inl e
      | Inr ((start, stop, end_date, n, timestamps), st1) \<Rightarrow>
          if n = 0 then Inr (True, st1)
          else
            (let st2 = st1\<lparr>logged := logged st1 @ [LogRequest (e_id entity_item) n],
                           fetches := fetches st1 @ [(start, stop, n, timestamps)]\<rparr>
             in case record_call sv entity_item start stop n timestamps of
                  Inl e \<Rightarrow> Inl e
                | Inr original_list \<Rightarrow>
                    (case process_duplicate self sv st2 original_list entity_item of
                       Inl e \<Rightarrow> Inl e
                     | Inr ((entity_finished, all_duplicated), st3) \<Rightarrow>
                         if entity_finished then Inr (True, st3)
                         else
                           (let (finished, st4) =
                                  process_realtime self st3 entity_item original_list all_duplicated now
                            in if finished then Inr (True, st4)
                               else Inr (False, st4\<lparr>logged := logged st4 @ [LogUpdate (e_id entity_item)]\<rparr>)))))"

section \<open>Reading results\<close>

text \<open>
  Projections of the results, and the notions used to state the properties below: the id
  that \<^verbatim>\<open>generate_domain_id\<close> derives for a raw record, the ids carried by a list of
  objects, and the stored object that the lookup of \<^verbatim>\<open>generate_domain\<close> picks.
\<close>

definition outcome :: "exn + ('a \<times> state) \<Rightarrow> exn + 'a" where
  "outcome r = map_sum id fst r"

definition final_state :: "exn + ('a \<times> state) \<Rightarrow> state option" where
  "final_state r = (case r of Inl e \<Rightarrow> None | Inr (x, st) \<Rightarrow> Some st)"

definition window_start :: "exn + (window \<times> state) \<Rightarrow> timestamp option" where
  "window_start r =
     (case r of Inl e \<Rightarrow> None | Inr ((start, stop, trade, n, timestamps), st) \<Rightarrow> start)"

definition window_size :: "exn + (window \<times> state) \<Rightarrow> int option" where
  "window_size r =
     (case r of Inl e \<Rightarrow> None | Inr ((start, stop, trade, n, timestamps), st) \<Rightarrow> Some n)"


text \<open>
  Whether \<^verbatim>\<open>generate_domain\<close> counts an item as new: an object built by the fetch step
  always, a raw dictionary when the store holds nothing under its id.
\<close>

definition counts_as_new :: "services \<Rightarrow> entity \<Rightarrow> original \<Rightarrow> bool" where
  "counts_as_new sv entity x =
     (case x of
        Built r \<Rightarrow> True
      | Raw d \<Rightarrow>
          (case generate_domain_id sv entity d of
             Inl e \<Rightarrow> False
           | Inr the_id \<Rightarrow> get_data_by_id sv (e_id entity) the_id = []))"

definition saved_records :: "exn + ('a \<times> state) \<Rightarrow> domain list" where
  "saved_records r =
     (case final_state r of None \<Rightarrow> [] | Some st \<Rightarrow> map (heap st) (concat (added st)))"

definition derived_id :: "services \<Rightarrow> entity \<Rightarrow> (string \<times> string) list \<Rightarrow> string" where
  "derived_id sv entity original_data =
     (case generate_domain_id sv entity original_data of Inl e \<Rightarrow> [] | Inr the_id \<Rightarrow> the_id)"

definition ids_of :: "state \<Rightarrow> ref list \<Rightarrow> string set" where
  "ids_of st domain_list = set (map (\<lambda>r. d_id (heap st r)) domain_list)"

definition existing_ref :: "services \<Rightarrow> entity \<Rightarrow> (string \<times> string) list \<Rightarrow> ref option" where
  "existing_ref sv entity original_data =
     (case generate_domain_id sv entity original_data of
        Inl e \<Rightarrow> None
      | Inr the_id \<Rightarrow>
          (case get_data_by_id sv (e_id entity) the_id of [] \<Rightarrow> None | r # _ \<Rightarrow> Some r))"

definition existing_refs :: "services \<Rightarrow> entity \<Rightarrow> (string \<times> string) list list \<Rightarrow> ref list" where
  "existing_refs sv entity ps = List.map_filter (existing_ref sv entity) ps"



section \<open>Example inputs\<close>

definition at_time :: "int \<Rightarrow> int \<Rightarrow> timestamp" where
  "at_time h m = h * ns_per_hour + m * ns_per_minute"

definition entity0 :: entity where
  "entity0 = \<lparr>e_id = ''stock_sz_000001'', e_code = ''000001'', e_name = Some ''PAB'',
               e_timestamp = None\<rparr>"

definition blank :: domain where
  "blank = \<lparr>d_id = [], d_code = [], d_name = None, d_entity_id = [], d_timestamp = None,
             d_fields = []\<rparr>"

definition state0 :: state where
  "state0 = \<lparr>heap = (\<lambda>r. blank), next_ref = 0, uuid_count = 0, logged = [], added = [],
              deleted = [], fetches = [], security_timestamps_map = (\<lambda>k. None)\<rparr>"

definition recorder0 :: recorder where
  "recorder0 = \<lparr>kind = TimeSeries, force_update = False, default_size = 2000, real_time = False,
                 fix_duplicate_way = ''add'', start_timestamp = None, end_timestamp = None,
                 close_hour = Some 0, close_minute = Some 0, level = ''1d'',
                 one_day_trading_minutes = 1440\<rparr>"

definition parse_day :: "string \<Rightarrow> exn + timestamp option" where
  "parse_day v =
     (if v = ''1970-01-01'' then Inr (Some 0)
      else if v = ''1970-01-02'' then Inr (Some ns_per_day)
      else Inl ValueError)"

definition same_day :: "timestamp option \<Rightarrow> timestamp option \<Rightarrow> string \<Rightarrow> bool" where
  "same_day a b l =
     (case (a, b) of (Some x, Some y) \<Rightarrow> x div ns_per_day = y div ns_per_day | _ \<Rightarrow> False)"

definition services0 :: services where
  "services0 =
     \<lparr>to_time_str = (\<lambda>v. v),
      to_pd_timestamp = parse_day,
      fill_domain_from_dict = (\<lambda>d p. d\<lparr>d_fields := p\<rparr>),
      name_column = True,
      get_data_by_id = (\<lambda>e i. []),
      get_data_latest = (\<lambda>e n. []),
      uuid1 = (\<lambda>n. replicate (Suc n) CHR ''u''),
      is_in_same_interval = same_day,
      count_mins_before_close_time = (\<lambda>now h m. 0),
      is_same_date = (\<lambda>a b. a div ns_per_day = b div ns_per_day),
      date_delta = (\<lambda>a b. Inr ((a - b) div ns_per_day)),
      evaluate_size_from_timestamp = (\<lambda>s e l m td. (e - s) div ns_per_day),
      record_call = (\<lambda>e s t n ts. Inr []),
      init_timestamps = (\<lambda>e. [])\<rparr>"

definition stock_detail0 :: "string \<Rightarrow> timestamp option" where
  "stock_detail0 k = None"

definition entity_unlisted :: entity where
  "entity_unlisted = entity0\<lparr>e_timestamp := Some (at_time 17 0)\<rparr>"

definition saved_at_15 :: domain where
  "saved_at_15 = blank\<lparr>d_id := ''stock_sz_000001_1970-01-01'', d_timestamp := Some (at_time 15 0)\<rparr>"

definition state_saved :: state where
  "state_saved = state0\<lparr>heap := (\<lambda>r. if r = 0 then saved_at_15 else blank), next_ref := 1\<rparr>"

definition services_saved :: services where
  "services_saved = services0\<lparr>get_data_latest := (\<lambda>e n. [0])\<rparr>"

definition recorder_close_1558 :: recorder where
  "recorder_close_1558 = recorder0\<lparr>real_time := True, close_hour := Some 15, close_minute := Some 58\<rparr>"

lemmas time_defs = at_time_def hour_def minute_def replace_hms0_def days_def
  ns_per_day_def ns_per_hour_def ns_per_minute_def ns_per_second_def

lemmas example_defs = entity0_def blank_def state0_def recorder0_def services0_def parse_day_def
  same_day_def stock_detail0_def entity_unlisted_def saved_at_15_def state_saved_def
  services_saved_def recorder_close_1558_def

definition raw_day1 :: original where
  "raw_day1 = Raw [(''timestamp'', ''1970-01-01''), (''close'', ''10.5'')]"

definition raw_day1_again :: original where
  "raw_day1_again = Raw [(''timestamp'', ''1970-01-01''), (''close'', ''10.6'')]"

definition raw_unparsed :: original where
  "raw_unparsed = Raw [(''timestamp'', ''n/a'')]"

definition recorder_ignore :: recorder where
  "recorder_ignore = recorder0\<lparr>fix_duplicate_way := ''ignore''\<rparr>"

definition unsorted_heap :: "ref \<Rightarrow> domain" where
  "unsorted_heap r =
     blank\<lparr>d_timestamp := (if r = 0 then Some 2 else if r = 1 then Some 5
                            else if r = 2 then Some 1 else Some 3)\<rparr>"

definition state_unsorted :: state where
  "state_unsorted = state0\<lparr>heap := unsorted_heap, next_ref := 4\<rparr>"

lemmas reconcile_defs = process_duplicate_def generate_domain_def generate_domain_id_def
  new_domain_item_def fill_item_def regenerate_id_def persist_def first_last_def outcome_def
  final_state_def Let_def

lemmas batch_defs = raw_day1_def raw_day1_again_def raw_unparsed_def recorder_ignore_def
  unsorted_heap_def state_unsorted_def

definition services_two_saved :: services where
  "services_two_saved = services0\<lparr>get_data_latest := (\<lambda>e n. [1, 0])\<rparr>"

definition state_two_saved :: state where
  "state_two_saved =
     state0\<lparr>heap := (\<lambda>r. if r = 0 then blank\<lparr>d_timestamp := Some (at_time 10 0)\<rparr>
                          else blank\<lparr>d_timestamp := Some (at_time 11 0)\<rparr>),
            next_ref := 2\<rparr>"

definition state_cached :: state where
  "state_cached =
     state_saved\<lparr>security_timestamps_map :=
       (\<lambda>k. if k = ''stock_sz_000001'' then Some [at_time 20 0, at_time 9 0, at_time 15 0]
            else None)\<rparr>"

lemmas store_defs = services_two_saved_def state_two_saved_def state_cached_def

definition payload_day1 :: "(string \<times> string) list" where
  "payload_day1 = [(''timestamp'', ''1970-01-01''), (''close'', ''10.5'')]"

definition payload_day1_again :: "(string \<times> string) list" where
  "payload_day1_again = [(''timestamp'', ''1970-01-01''), (''close'', ''10.6'')]"

lemmas payload_defs = payload_day1_def payload_day1_again_def

definition payload_day2 :: "(string \<times> string) list" where
  "payload_day2 = [(''timestamp'', ''1970-01-02''), (''close'', ''11.0'')]"

definition recorder_force :: recorder where
  "recorder_force = recorder0\<lparr>kind := FixedCycle, force_update := True, fix_duplicate_way := ''ignore''\<rparr>"

definition services_stored :: services where
  "services_stored =
     services0\<lparr>get_data_by_id := (\<lambda>e i. if i = ''stock_sz_000001_1970-01-01'' then [0] else [1])\<rparr>"

definition state_stored :: state where
  "state_stored =
     state0\<lparr>heap := (\<lambda>r. if r = 0 then blank\<lparr>d_id := ''stock_sz_000001_1970-01-01''\<rparr>
                          else blank\<lparr>d_id := ''stock_sz_000001_1970-01-02''\<rparr>),
            next_ref := 2\<rparr>"

lemmas stored_defs = payload_day2_def recorder_force_def services_stored_def state_stored_def

definition state_collide :: state where
  "state_collide =
     state0\<lparr>heap := (\<lambda>r. blank\<lparr>d_id := ''stock_sz_000001_1970-01-01''\<rparr>), next_ref := 2\<rparr>"

definition now_sub_second :: timestamp where
  "now_sub_second = ns_per_day + 10 * ns_per_hour + 700000000"

definition state_saved_half :: state where
  "state_saved_half =
     state0\<lparr>heap := (\<lambda>r. blank\<lparr>d_timestamp := Some 500000000\<rparr>), next_ref := 1\<rparr>"

lemmas sub_second_defs = now_sub_second_def state_saved_half_def


section \<open>Completion detection\<close>

lemma process_realtime_not_real_time:
  "\<not> real_time self \<Longrightarrow> original_list = [] \<or> all_duplicated \<Longrightarrow>
     process_realtime self st entity_item original_list all_duplicated now = (True, st)"
  by (simp add: process_realtime_def)

lemma process_realtime_got_data:
  "original_list \<noteq> [] \<Longrightarrow> \<not> all_duplicated \<Longrightarrow>
     process_realtime self st entity_item original_list all_duplicated now = (False, st)"
  by (simp add: process_realtime_def)

lemma process_realtime_real_time:
  "real_time self \<Longrightarrow> close_hour self = Some ch \<Longrightarrow> close_minute self = Some cm \<Longrightarrow>
     original_list = [] \<or> all_duplicated \<Longrightarrow>
     fst (process_realtime self st entity_item original_list all_duplicated now)
       = (hour now \<ge> ch \<and> minute now - cm \<ge> 5)"
  by (simp add: process_realtime_def)

text \<open>
  C1. With real-time tracking on and an empty fetch, an entity should be finished once
  \<open>now\<close> is five minutes or more past the close time. The recorder compares the hour and
  the minute fields separately: with the close at 15:58 and \<open>now\<close> at 16:04, six minutes
  past the close, the minute test reads \<open>4 - 58 \<ge> 5\<close> and the entity is not finished.
\<close>

theorem process_realtime_six_minutes_past_close:
  "fst (process_realtime recorder_close_1558 state0 entity0 [] True (at_time 16 4)) = False"
  by (simp add: process_realtime_def example_defs time_defs)

section \<open>The window of the generic recorder\<close>

lemma trade_at_0: "\<exists>t. trade_at trade_day 0 = Inr t"
  by (cases trade_day) (simp_all add: trade_at_def)

text \<open>
  C4, as stated, fails: without an end timestamp the size is not bounded below by 0. A
  record saved at 15:00 of the day on which \<open>now\<close> is 16:00 gives the size \<open>-1\<close>.
\<close>

theorem evaluate_time_series_negative_size:
  "window_size (evaluate_time_series recorder0 services_saved state_saved (at_time 16 0) entity0 [])
     = Some (- 1)"
  by (simp add: evaluate_time_series_def window_size_def Let_def trade_at_def not_listed_yet_def
      latest_known_def effective_start_def get_latest_saved_record_def example_defs time_defs)

lemma floor_days:
  fixes D S now eff :: int
  assumes S: "0 < S" and D: "S \<le> D"
  shows "((now - now mod D + now mod S) - eff) div D
           = now div D - eff div D - (if eff mod D \<le> now mod S then 0 else 1)"
proof -
  have Dpos: "0 < D" using S D by simp
  define q where "q = now div D - eff div D"
  define r where "r = now mod S - eff mod D"
  define a where "a = now div D * D"
  define b where "b = eff div D * D"
  have qD: "q * D = a - b" by (simp add: q_def a_def b_def left_diff_distrib)
  have n: "now - now mod D = a" by (simp add: a_def minus_mod_eq_div_mult)
  have e: "eff = b + eff mod D" by (simp add: b_def)
  have x: "(now - now mod D + now mod S) - eff = r + q * D"
    using qD n e unfolding r_def by linarith
  have b1: "0 \<le> now mod S" "now mod S < S" using S by simp_all
  have b2: "0 \<le> eff mod D" "eff mod D < D" using Dpos by simp_all
  show ?thesis
  proof (cases "eff mod D \<le> now mod S")
    case True
    then have "0 \<le> r" "r < D" using b1 b2 D by (simp_all add: r_def)
    then have "r div D = 0" by simp
    then have "(r + q * D) div D = q" using Dpos by simp
    with x True show ?thesis by (simp add: q_def)
  next
    case False
    then have "0 \<le> r + D" "r + D < D" using b1 b2 by (simp_all add: r_def)
    then have "(r + D) div D = 0" by simp
    moreover have "r + q * D = (r + D) + (q - 1) * D" by (simp add: algebra_simps)
    ultimately have "(r + q * D) div D = q - 1" using Dpos
      by (metis add.commute add_cancel_right_left div_mult_self3 less_irrefl)
    with x False show ?thesis by (simp add: q_def)
  qed
qed

lemma floor_days_nonneg:
  fixes D S now eff :: int
  assumes S: "0 < S" and D: "S \<le> D"
  shows "0 \<le> ((now - now mod D + now mod S) - eff) div D
           \<longleftrightarrow> eff \<le> now div D * D + now mod S"
proof -
  have Dpos: "0 < D" using S D by simp
  have "now - now mod D = now div D * D" by (simp add: minus_mod_eq_div_mult)
  then show ?thesis using Dpos by (simp add: pos_imp_zdiv_nonneg_iff)
qed

text \<open>
  C4, amended. Take an entity that is past its listing timestamp or has none, with a latest
  timestamp: that of the latest saved record, or the listing timestamp when nothing is
  saved. The effective start is the later of the latest timestamp and the configured start.
  If an end timestamp is configured and the effective start has reached it, the size is 0.
  If none is configured, the size is the number of days from the date of the effective
  start to the date of \<open>now\<close>, less one when the time of day of the effective start is
  later than the part of \<open>now\<close> below one second; it is at least 0 exactly when the
  effective start is not later than midnight of the day of \<open>now\<close> plus that part, and
  negative otherwise.
\<close>

theorem evaluate_time_series_size:
  assumes "\<forall>t. e_timestamp entity = Some t \<longrightarrow> t < now"
    and "(\<exists>r. get_latest_saved_record sv entity = Some r \<and> d_timestamp (heap st r) = Some lt)
         \<or> (get_latest_saved_record sv entity = None \<and> e_timestamp entity = Some lt)"
  shows "\<exists>eff n.
           window_start (evaluate_time_series self sv st now entity trade_day) = Some eff
         \<and> window_size (evaluate_time_series self sv st now entity trade_day) = Some n
         \<and> lt \<le> eff \<and> (\<forall>s. start_timestamp self = Some s \<longrightarrow> s \<le> eff)
         \<and> (eff = lt \<or> start_timestamp self = Some eff)
         \<and> (\<forall>e. end_timestamp self = Some e \<and> e \<le> eff \<longrightarrow> n = 0)
         \<and> (end_timestamp self = None \<longrightarrow>
               n = now div ns_per_day - eff div ns_per_day
                     - (if eff mod ns_per_day \<le> now mod ns_per_second then 0 else 1)
             \<and> (0 \<le> n \<longleftrightarrow> eff \<le> now div ns_per_day * ns_per_day + now mod ns_per_second))"
proof -
  obtain t where t: "trade_at trade_day 0 = Inr t" using trade_at_0 by blast
  have listed: "\<not> not_listed_yet now entity"
    using assms(1) by (auto simp add: not_listed_yet_def split: option.splits)
  have known: "latest_known sv st entity = Some lt"
    using assms(2) by (auto simp add: latest_known_def)
  let ?eff = "effective_start self lt"
  let ?n = "case end_timestamp self of
              Some e \<Rightarrow> if ?eff \<ge> e then 0 else default_size self
            | None \<Rightarrow> days (replace_hms0 now - ?eff)"
  have run: "evaluate_time_series self sv st now entity trade_day
               = Inr ((Some ?eff, end_timestamp self, t, ?n, None), st)"
    using t listed known by (simp add: evaluate_time_series_def Let_def)
  have c1: "window_start (evaluate_time_series self sv st now entity trade_day) = Some ?eff"
    and c2: "window_size (evaluate_time_series self sv st now entity trade_day) = Some ?n"
    using run by (simp_all add: window_start_def window_size_def)
  have c3: "lt \<le> ?eff" "\<forall>s. start_timestamp self = Some s \<longrightarrow> s \<le> ?eff"
    "?eff = lt \<or> start_timestamp self = Some ?eff"
    by (auto simp add: effective_start_def max_def split: option.splits)
  have c4: "\<forall>e. end_timestamp self = Some e \<and> e \<le> ?eff \<longrightarrow> ?n = 0" by auto
  have sd: "(0::int) < ns_per_second" "ns_per_second \<le> ns_per_day"
    by (simp_all add: ns_per_second_def ns_per_day_def)
  have c5: "end_timestamp self = None \<longrightarrow>
               ?n = now div ns_per_day - ?eff div ns_per_day
                     - (if ?eff mod ns_per_day \<le> now mod ns_per_second then 0 else 1)
             \<and> (0 \<le> ?n \<longleftrightarrow> ?eff \<le> now div ns_per_day * ns_per_day + now mod ns_per_second)"
    using floor_days [OF sd, of now ?eff] floor_days_nonneg [OF sd, of now ?eff]
    by (simp add: days_def replace_hms0_def)
  show ?thesis
    apply (rule exI [of _ ?eff])
    apply (rule exI [of _ ?n])
    using c1 c2 c3 c4 c5 apply blast
    done
qed

theorem evaluate_time_series_size_witness:
  "e_timestamp entity0 = None
   \<and> get_latest_saved_record services_saved entity0 = Some 0
   \<and> d_timestamp (heap state_saved_half 0) = Some 500000000
   \<and> start_timestamp recorder0 = None \<and> end_timestamp recorder0 = None
   \<and> window_start (evaluate_time_series recorder0 services_saved state_saved_half
        now_sub_second entity0 []) = Some 500000000
   \<and> window_size (evaluate_time_series recorder0 services_saved state_saved_half
        now_sub_second entity0 []) = Some 1"
proof -
  have a: "\<forall>t. e_timestamp entity0 = Some t \<longrightarrow> t < now_sub_second"
    by (simp add: example_defs)
  have g: "get_latest_saved_record services_saved entity0 = Some 0"
    by (simp add: get_latest_saved_record_def example_defs)
  have h: "d_timestamp (heap state_saved_half 0) = Some 500000000"
    by (simp add: example_defs sub_second_defs)
  have b: "(\<exists>r. get_latest_saved_record services_saved entity0 = Some r
               \<and> d_timestamp (heap state_saved_half r) = Some 500000000)
           \<or> (get_latest_saved_record services_saved entity0 = None
               \<and> e_timestamp entity0 = Some 500000000)"
    using g h by blast
  have c: "e_timestamp entity0 = None" "start_timestamp recorder0 = None"
    "end_timestamp recorder0 = None"
    by (simp_all add: example_defs)
  from evaluate_time_series_size [OF a b, of recorder0 "[]"] obtain eff n where
    all: "window_start (evaluate_time_series recorder0 services_saved state_saved_half
            now_sub_second entity0 []) = Some eff
         \<and> window_size (evaluate_time_series recorder0 services_saved state_saved_half
            now_sub_second entity0 []) = Some n
         \<and> 500000000 \<le> eff \<and> (\<forall>s. start_timestamp recorder0 = Some s \<longrightarrow> s \<le> eff)
         \<and> (eff = 500000000 \<or> start_timestamp recorder0 = Some eff)
         \<and> (\<forall>e. end_timestamp recorder0 = Some e \<and> e \<le> eff \<longrightarrow> n = 0)
         \<and> (end_timestamp recorder0 = None \<longrightarrow>
               n = now_sub_second div ns_per_day - eff div ns_per_day
                     - (if eff mod ns_per_day \<le> now_sub_second mod ns_per_second then 0 else 1)
             \<and> (0 \<le> n \<longleftrightarrow> eff \<le> now_sub_second div ns_per_day * ns_per_day
                                 + now_sub_second mod ns_per_second))"
    by (elim exE)
  then have s: "window_start (evaluate_time_series recorder0 services_saved state_saved_half
          now_sub_second entity0 []) = Some eff"
    and z: "window_size (evaluate_time_series recorder0 services_saved state_saved_half
          now_sub_second entity0 []) = Some n"
    and e: "eff = 500000000 \<or> start_timestamp recorder0 = Some eff"
    and n: "end_timestamp recorder0 = None \<longrightarrow>
               n = now_sub_second div ns_per_day - eff div ns_per_day
                     - (if eff mod ns_per_day \<le> now_sub_second mod ns_per_second then 0 else 1)
             \<and> (0 \<le> n \<longleftrightarrow> eff \<le> now_sub_second div ns_per_day * ns_per_day
                                 + now_sub_second mod ns_per_second)"
    by blast+
  from e c have eff: "eff = 500000000" by simp
  with n c have "n = 1"
    by (simp add: sub_second_defs ns_per_day_def ns_per_hour_def ns_per_second_def)
  with s z eff g h c show ?thesis by simp
qed

text \<open>
  C6. An entity whose listing timestamp is present and not before \<open>now\<close> gets the size 0
  from the generic and from the fixed-cycle recorder, and the cycle ends there: the entity
  is reported finished and the state is untouched, so nothing is fetched, deleted or saved.
\<close>

theorem listing_not_reached_size_zero:
  assumes "e_timestamp entity = Some t" and "t \<ge> now" and "kind self \<noteq> Timestamps"
  shows "window_size (evaluate_start_end_size_timestamps self sv st now entity trade_day stock_detail)
           = Some 0
       \<and> process_entity self sv st now entity trade_day stock_detail = Inr (True, st)"
proof -
  obtain tr where t: "trade_at trade_day 0 = Inr tr" using trade_at_0 by blast
  have n: "not_listed_yet now entity" using assms by (simp add: not_listed_yet_def)
  have "evaluate_start_end_size_timestamps self sv st now entity trade_day stock_detail
          = Inr ((e_timestamp entity, None, tr, 0, None), st)"
    using assms(3) n t
    by (cases "kind self")
      (simp_all add: evaluate_start_end_size_timestamps_def evaluate_time_series_def
        evaluate_fixed_cycle_def)
  then show ?thesis by (simp add: window_size_def process_entity_def)
qed

theorem listing_not_reached_size_zero_witness:
  "e_timestamp entity_unlisted = Some (at_time 17 0) \<and> at_time 17 0 \<ge> at_time 16 0
   \<and> kind (recorder0\<lparr>kind := FixedCycle\<rparr>) \<noteq> Timestamps
   \<and> process_entity (recorder0\<lparr>kind := FixedCycle\<rparr>) services_saved state_saved (at_time 16 0)
        entity_unlisted [] stock_detail0 = Inr (True, state_saved)"
proof -
  have a: "e_timestamp entity_unlisted = Some (at_time 17 0)" by (simp add: example_defs)
  have b: "at_time 17 0 \<ge> at_time 16 0" by (simp add: time_defs)
  have c: "kind (recorder0\<lparr>kind := FixedCycle\<rparr>) \<noteq> Timestamps" by simp
  show ?thesis
    using listing_not_reached_size_zero [OF a b c] a b c by simp
qed

section \<open>The loop of \<open>process_duplicate\<close>\<close>



lemma process_items_append:
  "process_items self sv e (xs @ ys) ad dl st =
     (case process_items self sv e xs ad dl st of
        Inl ex \<Rightarrow> Inl ex
      | Inr (Aborted a s) \<Rightarrow> Inr (Aborted a s)
      | Inr (Completed a d s) \<Rightarrow> process_items self sv e ys a d s)"
proof (induction xs arbitrary: ad dl st)
  case Nil
  then show ?case by simp
next
  case (Cons x xs)
  show ?case
  proof (cases "generate_domain self sv st e x")
    case (Inl ex)
    then show ?thesis by simp
  next
    case (Inr res)
    obtain g item st1 where res: "res = ((g, item), st1)" by (metis prod.exhaust)
    show ?thesis
      using Inr res Cons.IH
      by (cases item) (simp_all add: Let_def)
  qed
qed

lemma collision_iff:
  "(filter (\<lambda>item. d_id (heap st item) = d_id (heap st r)) dl \<noteq> [])
     = (d_id (heap st r) \<in> ids_of st dl)"
proof -
  have "(\<exists>x\<in>set dl. d_id (heap st x) = d_id (heap st r))
          = (d_id (heap st r) \<in> (\<lambda>x. d_id (heap st x)) ` set dl)"
    by (simp add: image_iff eq_commute)
  then show ?thesis by (simp add: ids_of_def filter_empty_conv)
qed

lemma ids_of_frame:
  "\<forall>r\<in>set dl. heap st1 r = heap st r \<Longrightarrow> ids_of st1 dl = ids_of st dl"
  by (simp add: ids_of_def cong: map_cong)

lemma ids_of_snoc: "ids_of st (dl @ [r]) = insert (d_id (heap st r)) (ids_of st dl)"
  by (simp add: ids_of_def)





section \<open>The flag \<open>all_duplicated\<close>\<close>

lemma generate_domain_got_new:
  "generate_domain self sv st e x = Inr ((g, item), st') \<Longrightarrow> g = counts_as_new sv e x"
  unfolding generate_domain_def counts_as_new_def
  by (cases x) (auto split: sum.splits list.splits option.splits prod.splits if_splits)

lemma process_items_step:
  assumes "process_items self sv e (x # xs) ad dl st = Inr res"
  shows "\<exists>item st1.
           generate_domain self sv st e x = Inr ((counts_as_new sv e x, item), st1)
         \<and> (res = Aborted (ad \<and> \<not> counts_as_new sv e x) st1
            \<or> (\<exists>dl1 st2. process_items self sv e xs (ad \<and> \<not> counts_as_new sv e x) dl1 st2 = Inr res))"
proof -
  from assms obtain g item st1 where
    gd: "generate_domain self sv st e x = Inr ((g, item), st1)"
    by (auto split: sum.splits)
  then have g: "g = counts_as_new sv e x" by (rule generate_domain_got_new)
  have ad: "(if g then False else ad) = (ad \<and> \<not> counts_as_new sv e x)" using g by simp
  show ?thesis
  proof (cases item)
    case None
    with assms gd ad show ?thesis using g by (auto simp add: Let_def)
  next
    case (Some r)
    with assms gd ad show ?thesis using g
      by (auto simp add: Let_def split: if_splits)
  qed
qed

lemma process_items_completed:
  "process_items self sv e xs ad dl st = Inr (Completed ad' dl' st') \<Longrightarrow>
     ad' = (ad \<and> (\<forall>x\<in>set xs. \<not> counts_as_new sv e x))"
proof (induction xs arbitrary: ad dl st)
  case Nil
  then show ?case by simp
next
  case (Cons x xs)
  from process_items_step [OF Cons.prems] obtain dl1 st2 where
    "process_items self sv e xs (ad \<and> \<not> counts_as_new sv e x) dl1 st2 = Inr (Completed ad' dl' st')"
    by blast
  from Cons.IH [OF this] show ?case by auto
qed

lemma process_items_aborted:
  "process_items self sv e xs ad dl st = Inr (Aborted ad' st') \<Longrightarrow>
     \<exists>k<length xs. ad' = (ad \<and> (\<forall>x\<in>set (take (Suc k) xs). \<not> counts_as_new sv e x))"
proof (induction xs arbitrary: ad dl st)
  case Nil
  then show ?case by simp
next
  case (Cons x xs)
  from process_items_step [OF Cons.prems] consider
    (here) "ad' = (ad \<and> \<not> counts_as_new sv e x)"
    | (later) dl1 st2 where
      "process_items self sv e xs (ad \<and> \<not> counts_as_new sv e x) dl1 st2 = Inr (Aborted ad' st')"
    by auto
  then show ?case
  proof cases
    case here
    then have "ad' = (ad \<and> (\<forall>y\<in>set (take (Suc 0) (x # xs)). \<not> counts_as_new sv e y))"
      by simp
    then show ?thesis by (intro exI [of _ 0]) simp
  next
    case later
    from Cons.IH [OF later] obtain k where
      k: "k < length xs"
        "ad' = ((ad \<and> \<not> counts_as_new sv e x) \<and> (\<forall>y\<in>set (take (Suc k) xs). \<not> counts_as_new sv e y))"
      by blast
    then have "ad' = (ad \<and> (\<forall>y\<in>set (take (Suc (Suc k)) (x # xs)). \<not> counts_as_new sv e y))"
      by auto
    with k(1) show ?thesis by (intro exI [of _ "Suc k"]) simp
  qed
qed

lemma process_items_aborted_at:
  "process_items self sv e xs ad dl st = Inr (Aborted ad' st') \<Longrightarrow>
     \<exists>k<length xs. \<exists>ad1 dl1 st1.
        process_items self sv e (take k xs) ad dl st = Inr (Completed ad1 dl1 st1)
      \<and> process_items self sv e [xs ! k] ad1 dl1 st1 = Inr (Aborted ad' st')
      \<and> ad' = (ad \<and> (\<forall>x\<in>set (take (Suc k) xs). \<not> counts_as_new sv e x))"
proof (induction xs arbitrary: ad dl st)
  case Nil
  then show ?case by simp
next
  case (Cons x xs)
  have split: "process_items self sv e (x # xs) ad dl st =
     (case process_items self sv e [x] ad dl st of
        Inl ex \<Rightarrow> Inl ex
      | Inr (Aborted a s) \<Rightarrow> Inr (Aborted a s)
      | Inr (Completed a d s) \<Rightarrow> process_items self sv e xs a d s)"
    using process_items_append [of self sv e "[x]" xs ad dl st] by simp
  show ?case
  proof (cases "process_items self sv e [x] ad dl st")
    case (Inl ex)
    with split Cons.prems show ?thesis by simp
  next
    case (Inr res)
    show ?thesis
    proof (cases res)
      case (Aborted a s)
      with Inr split Cons.prems have one: "process_items self sv e [x] ad dl st = Inr (Aborted ad' st')"
        by simp
      from process_items_aborted [OF one] have "ad' = (ad \<and> \<not> counts_as_new sv e x)" by simp
      with one show ?thesis
        by (intro exI [of _ 0]) simp
    next
      case (Completed a d s)
      with Inr split Cons.prems have
        one: "process_items self sv e [x] ad dl st = Inr (Completed a d s)"
        and rest: "process_items self sv e xs a d s = Inr (Aborted ad' st')"
        by simp_all
      from process_items_completed [OF one] have a: "a = (ad \<and> \<not> counts_as_new sv e x)" by simp
      from Cons.IH [OF rest] obtain k ad1 dl1 st1 where
        k: "k < length xs"
        and pre: "process_items self sv e (take k xs) a d s = Inr (Completed ad1 dl1 st1)"
        and hit: "process_items self sv e [xs ! k] ad1 dl1 st1 = Inr (Aborted ad' st')"
        and flag: "ad' = (a \<and> (\<forall>y\<in>set (take (Suc k) xs). \<not> counts_as_new sv e y))"
        by blast
      have "process_items self sv e (take (Suc k) (x # xs)) ad dl st
              = Inr (Completed ad1 dl1 st1)"
        using process_items_append [of self sv e "[x]" "take k xs" ad dl st] one pre by simp
      moreover have "process_items self sv e [(x # xs) ! Suc k] ad1 dl1 st1 = Inr (Aborted ad' st')"
        using hit by simp
      moreover have "ad' = (ad \<and> (\<forall>y\<in>set (take (Suc (Suc k)) (x # xs)). \<not> counts_as_new sv e y))"
        using flag a by auto
      ultimately show ?thesis using k by (intro exI [of _ "Suc k"]) simp
    qed
  qed
qed

lemma process_items_aborted_collision:
  assumes "process_items self sv e [x] ad dl st = Inr (Aborted ad' st')"
  shows "\<exists>r. generate_domain self sv st e x = Inr ((counts_as_new sv e x, Some r), st')
           \<and> d_id (heap st' r) \<in> ids_of st' dl \<and> fix_duplicate_way self \<noteq> ''add''"
proof -
  from assms obtain g item st1 where
    gd: "generate_domain self sv st e x = Inr ((g, item), st1)"
    by (auto split: sum.splits)
  then have g: "g = counts_as_new sv e x" by (rule generate_domain_got_new)
  from assms gd obtain r where r: "item = Some r"
    by (cases item) (auto simp add: Let_def)
  from assms gd r have "st1 = st'"
    and "filter (\<lambda>item. d_id (heap st1 item) = d_id (heap st1 r)) dl \<noteq> []"
    and "fix_duplicate_way self \<noteq> ''add''"
    by (auto simp add: Let_def split: if_splits)
  with gd g r show ?thesis by (auto simp add: collision_iff)
qed

text \<open>
  C3, as stated, fails: for an empty batch the flag is true, not false.
\<close>

theorem process_duplicate_empty_batch:
  "outcome (process_duplicate recorder0 services0 state0 [] entity0) = Inr (False, True)"
  by (simp add: process_duplicate_def outcome_def)

text \<open>
  C3, amended. The reconciler returns \<open>all_duplicated = True\<close> exactly when no record of the
  batch was counted as new. When an id collision ends the batch early, the records before
  the colliding one have been processed without a collision, the colliding one carries the
  id of a record already in the list under a mode other than \<open>add\<close>, and the flag is true
  exactly when no record up to and including the colliding one was counted as new. For an
  empty batch the flag is true.
\<close>

theorem process_duplicate_all_duplicated:
  "process_duplicate self sv st [] e = Inr ((False, True), st)
   \<and> (process_duplicate self sv st xs e = Inr ((fin, ad), st') \<longrightarrow>
        (\<not> fin \<longrightarrow> ad = (\<forall>x\<in>set xs. \<not> counts_as_new sv e x))
      \<and> (fin \<longrightarrow>
           (\<exists>k<length xs. \<exists>ad1 dl1 st1 r.
               process_items self sv e (take k xs) True [] st = Inr (Completed ad1 dl1 st1)
             \<and> generate_domain self sv st1 e (xs ! k)
                 = Inr ((counts_as_new sv e (xs ! k), Some r), st')
             \<and> d_id (heap st' r) \<in> ids_of st' dl1
             \<and> fix_duplicate_way self \<noteq> ''add''
             \<and> ad = (\<forall>x\<in>set (take (Suc k) xs). \<not> counts_as_new sv e x))))"
proof (intro conjI impI)
  show "process_duplicate self sv st [] e = Inr ((False, True), st)"
    by (simp add: process_duplicate_def)
next
  assume r: "process_duplicate self sv st xs e = Inr ((fin, ad), st')" and "\<not> fin"
  show "ad = (\<forall>x\<in>set xs. \<not> counts_as_new sv e x)"
  proof (cases "xs = []")
    case True
    with r show ?thesis by (simp add: process_duplicate_def)
  next
    case False
    with r \<open>\<not> fin\<close> obtain dl st1 where
      "process_items self sv e xs True [] st = Inr (Completed ad dl st1)"
      by (auto simp add: process_duplicate_def split: sum.splits loop_result.splits if_splits)
    from process_items_completed [OF this] show ?thesis by simp
  qed
next
  assume r: "process_duplicate self sv st xs e = Inr ((fin, ad), st')" and "fin"
  then have "process_items self sv e xs True [] st = Inr (Aborted ad st')"
    by (auto simp add: process_duplicate_def split: sum.splits loop_result.splits if_splits)
  from process_items_aborted_at [OF this] obtain k ad1 dl1 st1 where
    k: "k < length xs"
    and pre: "process_items self sv e (take k xs) True [] st = Inr (Completed ad1 dl1 st1)"
    and hit: "process_items self sv e [xs ! k] ad1 dl1 st1 = Inr (Aborted ad st')"
    and flag: "ad = (\<forall>x\<in>set (take (Suc k) xs). \<not> counts_as_new sv e x)"
    by auto
  from process_items_aborted_collision [OF hit] obtain r where
    "generate_domain self sv st1 e (xs ! k) = Inr ((counts_as_new sv e (xs ! k), Some r), st')"
    "d_id (heap st' r) \<in> ids_of st' dl1" "fix_duplicate_way self \<noteq> ''add''"
    by blast
  with k pre flag show
    "\<exists>k<length xs. \<exists>ad1 dl1 st1 r.
               process_items self sv e (take k xs) True [] st = Inr (Completed ad1 dl1 st1)
             \<and> generate_domain self sv st1 e (xs ! k)
                 = Inr ((counts_as_new sv e (xs ! k), Some r), st')
             \<and> d_id (heap st' r) \<in> ids_of st' dl1
             \<and> fix_duplicate_way self \<noteq> ''add''
             \<and> ad = (\<forall>x\<in>set (take (Suc k) xs). \<not> counts_as_new sv e x)"
    by blast
qed

theorem process_duplicate_all_duplicated_witness:
  "outcome (process_duplicate recorder0 services0 state0 [raw_day1] entity0) = Inr (False, False)
   \<and> \<not> (\<forall>x\<in>set [raw_day1]. \<not> counts_as_new services0 entity0 x)
   \<and> outcome (process_duplicate recorder_force services_stored state_collide
        [raw_day1, Built 1] entity0) = Inr (True, False)
   \<and> \<not> counts_as_new services_stored entity0 raw_day1
   \<and> counts_as_new services_stored entity0 (Built 1)"
proof -
  have "\<exists>st'. process_duplicate recorder0 services0 state0 [raw_day1] entity0
                = Inr ((False, False), st')"
    by (simp add: reconcile_defs example_defs batch_defs)
  then obtain st' where
    r: "process_duplicate recorder0 services0 state0 [raw_day1] entity0 = Inr ((False, False), st')"
    by blast
  from process_duplicate_all_duplicated
         [of recorder0 services0 state0 entity0 "[raw_day1]" False False st'] r
  have one: "outcome (process_duplicate recorder0 services0 state0 [raw_day1] entity0)
               = Inr (False, False)
             \<and> \<not> (\<forall>x\<in>set [raw_day1]. \<not> counts_as_new services0 entity0 x)"
    by (simp add: outcome_def)
  have "\<exists>ad st'. process_duplicate recorder_force services_stored state_collide
                [raw_day1, Built 1] entity0 = Inr ((True, ad), st')"
    by (simp add: reconcile_defs example_defs batch_defs stored_defs state_collide_def) blast
  then obtain ad st2 where
    q: "process_duplicate recorder_force services_stored state_collide
          [raw_day1, Built 1] entity0 = Inr ((True, ad), st2)"
    by blast
  have n0: "\<not> counts_as_new services_stored entity0 raw_day1"
    by (simp add: counts_as_new_def generate_domain_id_def example_defs batch_defs stored_defs)
  have n1: "counts_as_new services_stored entity0 (Built 1)"
    by (simp add: counts_as_new_def)
  from process_duplicate_all_duplicated
         [of recorder_force services_stored state_collide entity0 "[raw_day1, Built 1]" True ad st2,
          THEN conjunct2, THEN mp, OF q, THEN conjunct2]
  have "\<exists>k<length [raw_day1, Built 1]. \<exists>ad1 dl1 st1 r.
           process_items recorder_force services_stored entity0 (take k [raw_day1, Built 1])
             True [] state_collide = Inr (Completed ad1 dl1 st1)
         \<and> generate_domain recorder_force services_stored st1 entity0 ([raw_day1, Built 1] ! k)
             = Inr ((counts_as_new services_stored entity0 ([raw_day1, Built 1] ! k), Some r), st2)
         \<and> d_id (heap st2 r) \<in> ids_of st2 dl1
         \<and> fix_duplicate_way recorder_force \<noteq> ''add''
         \<and> ad = (\<forall>x\<in>set (take (Suc k) [raw_day1, Built 1]).
                    \<not> counts_as_new services_stored entity0 x)"
    by blast
  then obtain k ad1 dl1 st1 r where
    k: "k < length [raw_day1, Built 1]"
    and pre: "process_items recorder_force services_stored entity0 (take k [raw_day1, Built 1])
                True [] state_collide = Inr (Completed ad1 dl1 st1)"
    and hit: "d_id (heap st2 r) \<in> ids_of st2 dl1"
    and flag: "ad = (\<forall>x\<in>set (take (Suc k) [raw_day1, Built 1]).
                      \<not> counts_as_new services_stored entity0 x)"
    by blast
  have "k \<noteq> 0"
  proof
    assume "k = 0"
    with pre have "dl1 = []" by simp
    with hit show False by (simp add: ids_of_def)
  qed
  with k have "k = 1" by simp
  with flag n1 have "\<not> ad" by simp
  with q have two: "outcome (process_duplicate recorder_force services_stored state_collide
        [raw_day1, Built 1] entity0) = Inr (True, False)"
    by (simp add: outcome_def)
  from one two n0 n1 show ?thesis by simp
qed

section \<open>The interval logged by \<open>persist\<close>\<close>

text \<open>
  C8, as stated, fails: a batch whose timestamps are 2, 5, 1, 3 in this order is logged
  with the interval from 2 to 3, although its least and greatest timestamps are 1 and 5.
\<close>

theorem persist_positions_not_min_max:
  "logged (persist state_unsorted entity0 [0, 1, 2, 3])
     = [LogPersist ''stock_sz_000001'' (Some 2) (Some 3)]
   \<and> map d_timestamp (map (heap state_unsorted) [0, 1, 2, 3]) = [Some 2, Some 5, Some 1, Some 3]"
  by (simp add: persist_def first_last_def example_defs batch_defs)

lemma sorted_hd_Min: "sorted xs \<Longrightarrow> xs \<noteq> [] \<Longrightarrow> hd xs = Min (set xs)"
  by (cases xs) (auto intro!: Min_eqI [symmetric])

lemma sorted_last_Max: "sorted xs \<Longrightarrow> xs \<noteq> [] \<Longrightarrow> last xs = Max (set xs)"
  by (induction xs) (auto simp add: max_def intro: antisym)

lemma first_last_min_max: "first_last (Some a) (Some b) = (Some (min a b), Some (max a b))"
  by (simp add: first_last_def min_def max_def)

text \<open>
  C8, amended. For a non-empty batch whose first and last records carry timestamps, the
  interval logged runs from the smaller to the larger of these two timestamps, and the whole
  batch is handed to the session. The two are the least and the greatest timestamp of the
  batch when the batch is ordered by timestamp, ascending or descending.
\<close>

theorem persist_first_last:
  assumes "domain_list \<noteq> []"
    and "d_timestamp (heap st (hd domain_list)) = Some a"
    and "d_timestamp (heap st (last domain_list)) = Some b"
  shows "persist st entity domain_list
           = st\<lparr>logged := logged st @ [LogPersist (e_id entity) (Some (min a b)) (Some (max a b))],
                added := added st @ [domain_list]\<rparr>
       \<and> (\<forall>ts. map d_timestamp (map (heap st) domain_list) = map Some ts
                \<and> (sorted ts \<or> sorted (rev ts))
              \<longrightarrow> min a b = Min (set ts) \<and> max a b = Max (set ts))"
proof (intro conjI allI impI)
  show "persist st entity domain_list
           = st\<lparr>logged := logged st @ [LogPersist (e_id entity) (Some (min a b)) (Some (max a b))],
                added := added st @ [domain_list]\<rparr>"
    using assms by (simp add: persist_def first_last_min_max)
next
  fix ts
  assume h: "map d_timestamp (map (heap st) domain_list) = map Some ts
               \<and> (sorted ts \<or> sorted (rev ts))"
  then have len: "length ts = length domain_list"
    by (metis length_map)
  with assms(1) have ne: "ts \<noteq> []" by auto
  have "Some (hd ts) = hd (map Some ts)" using ne by (simp add: hd_map)
  also have "\<dots> = d_timestamp (heap st (hd domain_list))"
    using h assms(1) by (metis hd_map map_is_Nil_conv)
  finally have a: "hd ts = a" using assms(2) by simp
  have "Some (last ts) = last (map Some ts)" using ne by (simp add: last_map)
  also have "\<dots> = d_timestamp (heap st (last domain_list))"
    using h assms(1) by (metis last_map map_is_Nil_conv)
  finally have b: "last ts = b" using assms(3) by simp
  from h have "sorted ts \<or> sorted (rev ts)" by simp
  then have "min a b = Min (set ts) \<and> max a b = Max (set ts)"
  proof
    assume s: "sorted ts"
    then have "a = Min (set ts)" "b = Max (set ts)"
      using sorted_hd_Min [OF s ne] sorted_last_Max [OF s ne] a b by simp_all
    moreover have "Min (set ts) \<le> Max (set ts)" using ne by simp
    ultimately show ?thesis by (simp add: min_def max_def)
  next
    assume s: "sorted (rev ts)"
    have ner: "rev ts \<noteq> []" using ne by simp
    have "b = Min (set ts)" "a = Max (set ts)"
      using sorted_hd_Min [OF s ner] sorted_last_Max [OF s ner] a b ne
      by (simp_all add: hd_rev last_rev)
    moreover have "Min (set ts) \<le> Max (set ts)" using ne by simp
    ultimately show ?thesis by (simp add: min_def max_def)
  qed
  then show "min a b = Min (set ts)" "max a b = Max (set ts)" by simp_all
qed

theorem persist_first_last_witness:
  "[1, 3, 0, 2] \<noteq> ([] :: ref list)
   \<and> d_timestamp (heap state_unsorted (hd [1, 3, 0, 2])) = Some 5
   \<and> d_timestamp (heap state_unsorted (last [1, 3, 0, 2])) = Some 1
   \<and> logged (persist state_unsorted entity0 [1, 3, 0, 2])
       = [LogPersist ''stock_sz_000001'' (Some 1) (Some 5)]
   \<and> (1::int) = Min (set [5, 3, 2, 1]) \<and> (5::int) = Max (set [5, 3, 2, 1])"
proof -
  have a: "[1, 3, 0, 2] \<noteq> ([] :: ref list)" by simp
  have b: "d_timestamp (heap state_unsorted (hd [1, 3, 0, 2])) = Some 5"
    by (simp add: example_defs batch_defs)
  have c: "d_timestamp (heap state_unsorted (last [1, 3, 0, 2])) = Some 1"
    by (simp add: example_defs batch_defs)
  have d: "map d_timestamp (map (heap state_unsorted) [1, 3, 0, 2]) = map Some [5, 3, 2, 1]
             \<and> (sorted [5, 3, 2, 1 :: int] \<or> sorted (rev [5, 3, 2, 1 :: int]))"
    by (simp add: example_defs batch_defs)
  from persist_first_last [OF a b c, of entity0] d
  have "persist state_unsorted entity0 [1, 3, 0, 2]
          = state_unsorted\<lparr>logged := logged state_unsorted
                @ [LogPersist (e_id entity0) (Some (min 5 1)) (Some (max 5 1))],
              added := added state_unsorted @ [[1, 3, 0, 2]]\<rparr>"
    and "min 5 1 = Min (set [5, 3, 2, 1 :: int]) \<and> max 5 1 = Max (set [5, 3, 2, 1 :: int])"
    by blast+
  then show ?thesis using a b c by (simp add: example_defs batch_defs)
qed

section \<open>The latest saved record of the fixed-cycle recorder\<close>

text \<open>
  C5. The store answers the query of the fixed-cycle recorder with the two latest
  records, the latest first. When their timestamps lie in the same interval of the
  configured level, exactly one record is deleted, the latest, and the older one is
  returned; otherwise nothing is deleted and the latest is returned. The record returned
  gives the start of the window.
\<close>

theorem get_latest_saved_record_fixed_two:
  assumes "get_data_latest sv (e_id entity) 2 = [r0, r1]"
  shows "(is_in_same_interval sv (d_timestamp (heap st r0)) (d_timestamp (heap st r1)) (level self)
            \<longrightarrow> get_latest_saved_record_fixed self sv st entity
                  = (Some r1, st\<lparr>deleted := deleted st @ [r0]\<rparr>)
              \<and> (\<forall>w st'. \<not> not_listed_yet now entity
                     \<and> evaluate_fixed_cycle self sv st now entity trade_day stock_detail = Inr (w, st')
                   \<longrightarrow> fst w = d_timestamp (heap st r1) \<and> deleted st' = deleted st @ [r0]))
       \<and> (\<not> is_in_same_interval sv (d_timestamp (heap st r0)) (d_timestamp (heap st r1)) (level self)
            \<longrightarrow> get_latest_saved_record_fixed self sv st entity = (Some r0, st)
              \<and> (\<forall>w st'. \<not> not_listed_yet now entity
                     \<and> evaluate_fixed_cycle self sv st now entity trade_day stock_detail = Inr (w, st')
                   \<longrightarrow> fst w = d_timestamp (heap st r0) \<and> deleted st' = deleted st))"
proof -
  have window: "fst w = d_timestamp (heap st1 r) \<and> deleted st' = deleted st1"
    if "get_latest_saved_record_fixed self sv st entity = (Some r, st1)"
      and "\<not> not_listed_yet now entity"
      and "evaluate_fixed_cycle self sv st now entity trade_day stock_detail = Inr (w, st')"
    for r st1 w st'
  proof (cases "d_timestamp (heap st1 r)")
    case None
    with that show ?thesis
      by (auto simp add: evaluate_fixed_cycle_def split: sum.splits)
  next
    case (Some lt)
    with that show ?thesis
      by (auto simp add: evaluate_fixed_cycle_def Let_def
          split: sum.splits prod.splits option.splits if_splits)
  qed
  show ?thesis
  proof (cases "is_in_same_interval sv (d_timestamp (heap st r0)) (d_timestamp (heap st r1))
                  (level self)")
    case True
    then have g: "get_latest_saved_record_fixed self sv st entity
                    = (Some r1, st\<lparr>deleted := deleted st @ [r0]\<rparr>)"
      using assms by (simp add: get_latest_saved_record_fixed_def)
    from window [OF g] True g show ?thesis by simp
  next
    case False
    then have g: "get_latest_saved_record_fixed self sv st entity = (Some r0, st)"
      using assms by (simp add: get_latest_saved_record_fixed_def)
    from window [OF g] False g show ?thesis by simp
  qed
qed

theorem get_latest_saved_record_fixed_two_witness:
  "get_data_latest services_two_saved (e_id entity0) 2 = [1, 0]
   \<and> is_in_same_interval services_two_saved (d_timestamp (heap state_two_saved 1))
        (d_timestamp (heap state_two_saved 0)) (level recorder0)
   \<and> get_latest_saved_record_fixed recorder0 services_two_saved state_two_saved entity0
        = (Some 0, state_two_saved\<lparr>deleted := [1]\<rparr>)"
proof -
  have a: "get_data_latest services_two_saved (e_id entity0) 2 = [1, 0]"
    by (simp add: example_defs store_defs)
  have b: "is_in_same_interval services_two_saved (d_timestamp (heap state_two_saved 1))
             (d_timestamp (heap state_two_saved 0)) (level recorder0)"
    by (simp add: example_defs store_defs time_defs)
  have c: "deleted state_two_saved = []" by (simp add: example_defs store_defs)
  from get_latest_saved_record_fixed_two [OF a, of state_two_saved recorder0] a b c
  show ?thesis by simp
qed

section \<open>The window of the timestamps recorder\<close>



section \<open>A source timestamp that does not parse\<close>





section \<open>Two raw records with the same derived id\<close>

lemma counts_as_new_Raw:
  assumes "counts_as_new sv e (Raw p)"
  obtains v where "map_of p ''timestamp'' = Some v"
    and "generate_domain_id sv e p = Inr (derived_id sv e p)"
    and "derived_id sv e p = e_id e @ ''_'' @ to_time_str sv v"
    and "get_data_by_id sv (e_id e) (derived_id sv e p) = []"
  using assms
  by (auto simp add: counts_as_new_def derived_id_def generate_domain_id_def
      split: option.splits sum.splits)

lemma generate_domain_new:
  assumes new: "counts_as_new sv e (Raw p)"
    and fillid: "\<forall>x q. d_id (fill_domain_from_dict sv x q) = d_id x"
  shows "\<exists>st1. generate_domain self sv st e (Raw p) = Inr ((True, Some (next_ref st)), st1)
           \<and> next_ref st1 = Suc (next_ref st) \<and> added st1 = added st
           \<and> uuid_count st1 = uuid_count st
           \<and> d_id (heap st1 (next_ref st)) = derived_id sv e p
           \<and> (\<forall>r. r \<noteq> next_ref st \<longrightarrow> heap st1 r = heap st r)"
proof -
  from new obtain v where v: "map_of p ''timestamp'' = Some v"
    and g: "generate_domain_id sv e p = Inr (derived_id sv e p)"
    and l: "get_data_by_id sv (e_id e) (derived_id sv e p) = []"
    by (rule counts_as_new_Raw)
  show ?thesis
  proof (cases "to_pd_timestamp sv v")
    case (Inl ex)
    with v g l fillid show ?thesis
      by (simp add: generate_domain_def new_domain_item_def fill_item_def Let_def)
  next
    case (Inr t)
    with v g l fillid show ?thesis
      by (simp add: generate_domain_def new_domain_item_def fill_item_def Let_def)
  qed
qed

text \<open>One turn of the loop on a raw record that the store does not hold.\<close>

lemma process_items_new:
  assumes new: "counts_as_new sv e (Raw p)"
    and fillid: "\<forall>x q. d_id (fill_domain_from_dict sv x q) = d_id x"
    and fresh: "\<forall>r\<in>set dl. r < next_ref st"
  shows "\<exists>st1. next_ref st1 = Suc (next_ref st) \<and> added st1 = added st
           \<and> (\<forall>r. r \<noteq> next_ref st \<longrightarrow> heap st1 r = heap st r)
           \<and> (if derived_id sv e p \<in> ids_of st dl
               then (if fix_duplicate_way self \<noteq> ''add''
                     then process_items self sv e (Raw p # rest) ad dl st = Inr (Aborted False st1)
                     else process_items self sv e (Raw p # rest) ad dl st
                            = process_items self sv e rest False (dl @ [next_ref st]) st1
                        \<and> uuid_count st1 = Suc (uuid_count st)
                        \<and> d_id (heap st1 (next_ref st))
                            = derived_id sv e p @ ''_'' @ uuid1 sv (uuid_count st))
               else process_items self sv e (Raw p # rest) ad dl st
                      = process_items self sv e rest False (dl @ [next_ref st]) st1
                  \<and> uuid_count st1 = uuid_count st
                  \<and> d_id (heap st1 (next_ref st)) = derived_id sv e p)"
proof -
  from generate_domain_new [OF new fillid, of self st] obtain st1 where
    gd: "generate_domain self sv st e (Raw p) = Inr ((True, Some (next_ref st)), st1)"
    and n: "next_ref st1 = Suc (next_ref st)" and a: "added st1 = added st"
    and u: "uuid_count st1 = uuid_count st"
    and i: "d_id (heap st1 (next_ref st)) = derived_id sv e p"
    and h: "\<forall>r. r \<noteq> next_ref st \<longrightarrow> heap st1 r = heap st r"
    by blast
  have "\<forall>r\<in>set dl. heap st1 r = heap st r" using fresh h by auto
  then have ids: "ids_of st1 dl = ids_of st dl" by (rule ids_of_frame)
  have coll: "(filter (\<lambda>item. d_id (heap st1 item) = d_id (heap st1 (next_ref st))) dl \<noteq> [])
                = (derived_id sv e p \<in> ids_of st dl)"
    using collision_iff [of st1 "next_ref st" dl] i ids by simp
  show ?thesis
  proof (cases "derived_id sv e p \<in> ids_of st dl")
    case False
    with gd coll n a u i h show ?thesis
      by (intro exI [of _ st1]) (simp add: Let_def)
  next
    case True
    show ?thesis
    proof (cases "fix_duplicate_way self = ''add''")
      case False
      with True gd coll n a h show ?thesis
        by (intro exI [of _ st1]) (simp add: Let_def)
    next
      case add: True
      with True gd coll n a u i h show ?thesis
        by (intro exI [of _ "regenerate_id sv st1 (next_ref st)"])
          (simp add: Let_def regenerate_id_def)
    qed
  qed
qed

lemma process_items_collision_aborts:
  assumes mode: "fix_duplicate_way self \<noteq> ''add''"
    and fillid: "\<forall>x q. d_id (fill_domain_from_dict sv x q) = d_id x"
  shows "\<forall>p\<in>set ps. counts_as_new sv e (Raw p) \<Longrightarrow> \<forall>r\<in>set dl. r < next_ref st \<Longrightarrow>
     \<not> distinct (map (derived_id sv e) ps) \<or> set (map (derived_id sv e) ps) \<inter> ids_of st dl \<noteq> {} \<Longrightarrow>
     \<exists>st'. process_items self sv e (map Raw ps) ad dl st = Inr (Aborted False st')
        \<and> added st' = added st"
proof (induction ps arbitrary: ad dl st)
  case Nil
  then show ?case by simp
next
  case (Cons p ps)
  have new: "counts_as_new sv e (Raw p)" using Cons.prems(1) by simp
  from process_items_new [OF new fillid Cons.prems(2), of self "map Raw ps" ad] obtain st1 where
    n: "next_ref st1 = Suc (next_ref st)" and a: "added st1 = added st"
    and h: "\<forall>r. r \<noteq> next_ref st \<longrightarrow> heap st1 r = heap st r"
    and big: "if derived_id sv e p \<in> ids_of st dl
              then (if fix_duplicate_way self \<noteq> ''add''
                    then process_items self sv e (Raw p # map Raw ps) ad dl st
                           = Inr (Aborted False st1)
                    else process_items self sv e (Raw p # map Raw ps) ad dl st
                           = process_items self sv e (map Raw ps) False (dl @ [next_ref st]) st1
                       \<and> uuid_count st1 = Suc (uuid_count st)
                       \<and> d_id (heap st1 (next_ref st))
                           = derived_id sv e p @ ''_'' @ uuid1 sv (uuid_count st))
              else process_items self sv e (Raw p # map Raw ps) ad dl st
                     = process_items self sv e (map Raw ps) False (dl @ [next_ref st]) st1
                 \<and> uuid_count st1 = uuid_count st
                 \<and> d_id (heap st1 (next_ref st)) = derived_id sv e p"
    by blast
  have step: "if derived_id sv e p \<in> ids_of st dl
               then process_items self sv e (Raw p # map Raw ps) ad dl st = Inr (Aborted False st1)
               else process_items self sv e (Raw p # map Raw ps) ad dl st
                      = process_items self sv e (map Raw ps) False (dl @ [next_ref st]) st1
                  \<and> uuid_count st1 = uuid_count st
                  \<and> d_id (heap st1 (next_ref st)) = derived_id sv e p"
    using big mode by (simp del: process_items.simps)
  show ?case
  proof (cases "derived_id sv e p \<in> ids_of st dl")
    case True
    with step a show ?thesis by (simp del: process_items.simps)
  next
    case False
    with step have
      run: "process_items self sv e (Raw p # map Raw ps) ad dl st
              = process_items self sv e (map Raw ps) False (dl @ [next_ref st]) st1"
      and i: "d_id (heap st1 (next_ref st)) = derived_id sv e p"
      by simp_all
    have "\<forall>r\<in>set dl. heap st1 r = heap st r" using Cons.prems(2) h by auto
    then have "ids_of st1 dl = ids_of st dl" by (rule ids_of_frame)
    then have ids: "ids_of st1 (dl @ [next_ref st]) = insert (derived_id sv e p) (ids_of st dl)"
      using i by (simp add: ids_of_snoc)
    have fresh: "\<forall>r\<in>set (dl @ [next_ref st]). r < next_ref st1"
      using Cons.prems(2) n by auto
    have cond: "\<not> distinct (map (derived_id sv e) ps)
                  \<or> set (map (derived_id sv e) ps) \<inter> ids_of st1 (dl @ [next_ref st]) \<noteq> {}"
      using Cons.prems(3) False ids by auto
    have "\<forall>p\<in>set ps. counts_as_new sv e (Raw p)" using Cons.prems(1) by simp
    from Cons.IH [OF this fresh cond, of False] run a show ?thesis
      by (auto simp del: process_items.simps)
  qed
qed

lemma process_items_add:
  assumes mode: "fix_duplicate_way self = ''add''"
    and fillid: "\<forall>x q. d_id (fill_domain_from_dict sv x q) = d_id x"
    and inj: "inj (uuid1 sv)"
  shows "\<forall>p\<in>set ps. counts_as_new sv e (Raw p) \<Longrightarrow> \<forall>r\<in>set dl. r < next_ref st \<Longrightarrow>
     \<exists>st'. process_items self sv e (map Raw ps) ad dl st
              = Inr (Completed (ad \<and> ps = []) (dl @ [next_ref st ..< next_ref st + length ps]) st')
        \<and> added st' = added st
        \<and> (\<forall>r < next_ref st. heap st' r = heap st r)
        \<and> (\<forall>k < length ps. derived_id sv e (ps ! k) \<in> ids_of st dl \<longrightarrow>
              (\<exists>n \<ge> uuid_count st. d_id (heap st' (next_ref st + k))
                   = derived_id sv e (ps ! k) @ ''_'' @ uuid1 sv n))
        \<and> (\<forall>j k. j < k \<and> k < length ps \<and> derived_id sv e (ps ! j) = derived_id sv e (ps ! k) \<longrightarrow>
              d_id (heap st' (next_ref st + j)) \<noteq> d_id (heap st' (next_ref st + k))
            \<and> (\<exists>n. d_id (heap st' (next_ref st + k))
                   = derived_id sv e (ps ! k) @ ''_'' @ uuid1 sv n))"
proof (induction ps arbitrary: ad dl st)
  case Nil
  then show ?case by simp
next
  case (Cons p ps)
  let ?n0 = "next_ref st"
  let ?d = "derived_id sv e"
  have new: "counts_as_new sv e (Raw p)" using Cons.prems(1) by simp
  from process_items_new [OF new fillid Cons.prems(2), of self "map Raw ps" ad] obtain st1 where
    n: "next_ref st1 = Suc ?n0" and a: "added st1 = added st"
    and h: "\<forall>r. r \<noteq> ?n0 \<longrightarrow> heap st1 r = heap st r"
    and big: "if ?d p \<in> ids_of st dl
              then (if fix_duplicate_way self \<noteq> ''add''
                    then process_items self sv e (Raw p # map Raw ps) ad dl st
                           = Inr (Aborted False st1)
                    else process_items self sv e (Raw p # map Raw ps) ad dl st
                           = process_items self sv e (map Raw ps) False (dl @ [?n0]) st1
                       \<and> uuid_count st1 = Suc (uuid_count st)
                       \<and> d_id (heap st1 ?n0) = ?d p @ ''_'' @ uuid1 sv (uuid_count st))
              else process_items self sv e (Raw p # map Raw ps) ad dl st
                     = process_items self sv e (map Raw ps) False (dl @ [?n0]) st1
                 \<and> uuid_count st1 = uuid_count st
                 \<and> d_id (heap st1 ?n0) = ?d p"
    by blast
  have run: "process_items self sv e (Raw p # map Raw ps) ad dl st
                = process_items self sv e (map Raw ps) False (dl @ [?n0]) st1"
    using big mode by (simp del: process_items.simps split: if_splits)
  have head: "if ?d p \<in> ids_of st dl
               then uuid_count st1 = Suc (uuid_count st)
                  \<and> d_id (heap st1 ?n0) = ?d p @ ''_'' @ uuid1 sv (uuid_count st)
               else uuid_count st1 = uuid_count st \<and> d_id (heap st1 ?n0) = ?d p"
    using big mode by (simp del: process_items.simps split: if_splits)
  have "\<forall>r\<in>set dl. heap st1 r = heap st r" using Cons.prems(2) h by auto
  then have "ids_of st1 dl = ids_of st dl" by (rule ids_of_frame)
  then have ids: "ids_of st1 (dl @ [?n0]) = insert (d_id (heap st1 ?n0)) (ids_of st dl)"
    by (simp add: ids_of_snoc)
  have seen: "?d p \<in> ids_of st1 (dl @ [?n0])"
    using head ids by (auto split: if_splits)
  have fresh: "\<forall>r\<in>set (dl @ [?n0]). r < next_ref st1"
    using Cons.prems(2) n by auto
  have "\<forall>p\<in>set ps. counts_as_new sv e (Raw p)" using Cons.prems(1) by simp
  from Cons.IH [OF this fresh, of False] obtain st' where
    res: "process_items self sv e (map Raw ps) False (dl @ [?n0]) st1
            = Inr (Completed (False \<and> ps = [])
                    ((dl @ [?n0]) @ [next_ref st1 ..< next_ref st1 + length ps]) st')"
    and a': "added st' = added st1"
    and h': "\<forall>r < next_ref st1. heap st' r = heap st1 r"
    and suffixed: "\<forall>k < length ps. ?d (ps ! k) \<in> ids_of st1 (dl @ [?n0]) \<longrightarrow>
              (\<exists>m \<ge> uuid_count st1. d_id (heap st' (next_ref st1 + k))
                   = ?d (ps ! k) @ ''_'' @ uuid1 sv m)"
    and pairs: "\<forall>j k. j < k \<and> k < length ps \<and> ?d (ps ! j) = ?d (ps ! k) \<longrightarrow>
              d_id (heap st' (next_ref st1 + j)) \<noteq> d_id (heap st' (next_ref st1 + k))
            \<and> (\<exists>m. d_id (heap st' (next_ref st1 + k)) = ?d (ps ! k) @ ''_'' @ uuid1 sv m)"
    by blast
  have h0: "heap st' ?n0 = heap st1 ?n0" using h' n by simp
  have upt: "dl @ [?n0 ..< ?n0 + length (p # ps)]
               = (dl @ [?n0]) @ [next_ref st1 ..< next_ref st1 + length ps]"
  proof -
    have "[?n0 ..< ?n0 + Suc (length ps)] = ?n0 # [Suc ?n0 ..< Suc ?n0 + length ps]"
      by (subst upt_rec) simp
    then show ?thesis using n by simp
  qed
  have c1: "process_items self sv e (map Raw (p # ps)) ad dl st
              = Inr (Completed (ad \<and> p # ps = []) (dl @ [?n0 ..< ?n0 + length (p # ps)]) st')"
    using run res upt by (simp del: process_items.simps)
  have c2: "added st' = added st" using a a' by simp
  have c3: "\<forall>r < ?n0. heap st' r = heap st r"
    using h h' n by auto
  have c4: "\<forall>k < length (p # ps). ?d ((p # ps) ! k) \<in> ids_of st dl \<longrightarrow>
              (\<exists>m \<ge> uuid_count st. d_id (heap st' (?n0 + k))
                   = ?d ((p # ps) ! k) @ ''_'' @ uuid1 sv m)"
  proof (intro allI impI)
    fix k
    assume k: "k < length (p # ps)" and mem: "?d ((p # ps) ! k) \<in> ids_of st dl"
    show "\<exists>m \<ge> uuid_count st. d_id (heap st' (?n0 + k)) = ?d ((p # ps) ! k) @ ''_'' @ uuid1 sv m"
    proof (cases k)
      case 0
      with mem head h0 show ?thesis by (intro exI [of _ "uuid_count st"]) simp
    next
      case (Suc k')
      with k mem ids have "k' < length ps" "?d (ps ! k') \<in> ids_of st1 (dl @ [?n0])"
        by simp_all
      with suffixed obtain m where
        "m \<ge> uuid_count st1" "d_id (heap st' (next_ref st1 + k')) = ?d (ps ! k') @ ''_'' @ uuid1 sv m"
        by blast
      moreover have "uuid_count st \<le> uuid_count st1" using head by (simp split: if_splits)
      ultimately show ?thesis using Suc n by (intro exI [of _ m]) simp
    qed
  qed
  have c5: "\<forall>j k. j < k \<and> k < length (p # ps) \<and> ?d ((p # ps) ! j) = ?d ((p # ps) ! k) \<longrightarrow>
              d_id (heap st' (?n0 + j)) \<noteq> d_id (heap st' (?n0 + k))
            \<and> (\<exists>m. d_id (heap st' (?n0 + k)) = ?d ((p # ps) ! k) @ ''_'' @ uuid1 sv m)"
  proof (intro allI impI)
    fix j k
    assume jk: "j < k \<and> k < length (p # ps) \<and> ?d ((p # ps) ! j) = ?d ((p # ps) ! k)"
    then obtain k' where k': "k = Suc k'" "k' < length ps" by (cases k) auto
    show "d_id (heap st' (?n0 + j)) \<noteq> d_id (heap st' (?n0 + k))
            \<and> (\<exists>m. d_id (heap st' (?n0 + k)) = ?d ((p # ps) ! k) @ ''_'' @ uuid1 sv m)"
    proof (cases j)
      case 0
      with jk k' have same: "?d p = ?d (ps ! k')" by simp
      with seen suffixed k' obtain m where
        m: "m \<ge> uuid_count st1"
          "d_id (heap st' (next_ref st1 + k')) = ?d (ps ! k') @ ''_'' @ uuid1 sv m"
        by auto
      have "d_id (heap st1 ?n0) \<noteq> ?d p @ ''_'' @ uuid1 sv m"
      proof (cases "?d p \<in> ids_of st dl")
        case True
        with head have "d_id (heap st1 ?n0) = ?d p @ ''_'' @ uuid1 sv (uuid_count st)"
          and "uuid_count st1 = Suc (uuid_count st)" by simp_all
        moreover from this m(1) have "uuid1 sv m \<noteq> uuid1 sv (uuid_count st)"
          using inj by (auto dest: injD)
        ultimately show ?thesis by simp
      next
        case False
        with head show ?thesis by simp
      qed
      with m(2) same h0 0 k' n show ?thesis by auto
    next
      case (Suc j')
      with jk k' have "j' < k' \<and> k' < length ps \<and> ?d (ps ! j') = ?d (ps ! k')" by simp
      with pairs have "d_id (heap st' (next_ref st1 + j')) \<noteq> d_id (heap st' (next_ref st1 + k'))
            \<and> (\<exists>m. d_id (heap st' (next_ref st1 + k')) = ?d (ps ! k') @ ''_'' @ uuid1 sv m)"
        by blast
      with Suc k' n show ?thesis by simp
    qed
  qed
  from c1 c2 c3 c4 c5 show ?case by blast
qed

text \<open>
  C2, as stated, fails: with a mode other than \<open>add\<close>, two new records with the same id end
  the batch with the entity reported finished, and \<open>all_duplicated\<close> is false, not true.
\<close>

theorem process_duplicate_ignore_not_all_duplicated:
  "outcome (process_duplicate recorder_ignore services0 state0 [raw_day1, raw_day1_again] entity0)
     = Inr (True, False)"
  by (simp add: reconcile_defs example_defs batch_defs)

text \<open>
  C2, amended. Take a batch of raw records that the store does not hold, two of which get
  the same derived id, and a field mapping that leaves ids alone. Under the mode \<open>add\<close>,
  with tokens that are never repeated, the whole batch is saved, the two records have
  different ids and the later one carries the derived id followed by \<open>_\<close> and a token.
  Under any other mode the batch ends at the collision: nothing is saved, the entity is
  reported finished and \<open>all_duplicated\<close> is false, the records having been new.
\<close>

theorem same_derived_id_in_batch:
  assumes new: "\<forall>p\<in>set ps. counts_as_new sv e (Raw p)"
    and fillid: "\<forall>x q. d_id (fill_domain_from_dict sv x q) = d_id x"
    and jk: "j < k" "k < length ps"
    and same: "derived_id sv e (ps ! j) = derived_id sv e (ps ! k)"
  shows "(fix_duplicate_way self = ''add'' \<and> inj (uuid1 sv) \<longrightarrow>
           (\<exists>st'. process_duplicate self sv st (map Raw ps) e = Inr ((False, False), st')
              \<and> added st' = added st @ [[next_ref st ..< next_ref st + length ps]]
              \<and> d_id (heap st' (next_ref st + j)) \<noteq> d_id (heap st' (next_ref st + k))
              \<and> (\<exists>n. d_id (heap st' (next_ref st + k))
                     = derived_id sv e (ps ! k) @ ''_'' @ uuid1 sv n)))
       \<and> (fix_duplicate_way self \<noteq> ''add'' \<longrightarrow>
           (\<exists>st'. process_duplicate self sv st (map Raw ps) e = Inr ((True, False), st')
              \<and> added st' = added st))"
proof (intro conjI impI)
  have ne: "ps \<noteq> []" using jk by auto
  have fresh: "\<forall>r\<in>set ([] :: ref list). r < next_ref st" by simp
  {
    assume "fix_duplicate_way self = ''add'' \<and> inj (uuid1 sv)"
    then have mode: "fix_duplicate_way self = ''add''" and inj: "inj (uuid1 sv)" by simp_all
    let ?dl = "[next_ref st ..< next_ref st + length ps]"
    from process_items_add [OF mode fillid inj new fresh, of True] obtain st2 where
      run: "process_items self sv e (map Raw ps) True [] st
              = Inr (Completed (True \<and> ps = []) ([] @ ?dl) st2)"
      and a: "added st2 = added st"
      and pairs: "\<forall>j k. j < k \<and> k < length ps \<and> derived_id sv e (ps ! j) = derived_id sv e (ps ! k) \<longrightarrow>
              d_id (heap st2 (next_ref st + j)) \<noteq> d_id (heap st2 (next_ref st + k))
            \<and> (\<exists>n. d_id (heap st2 (next_ref st + k))
                   = derived_id sv e (ps ! k) @ ''_'' @ uuid1 sv n)"
      by blast
    have dl: "?dl \<noteq> []" using ne by simp
    have res: "process_duplicate self sv st (map Raw ps) e = Inr ((False, False), persist st2 e ?dl)"
      using run ne dl by (simp add: process_duplicate_def)
    have p1: "added (persist st2 e ?dl) = added st @ [?dl]"
      using a dl by (simp add: persist_def split: prod.splits)
    have p2: "heap (persist st2 e ?dl) = heap st2"
      by (simp add: persist_def split: prod.splits)
    from pairs jk same have
      "d_id (heap st2 (next_ref st + j)) \<noteq> d_id (heap st2 (next_ref st + k))
         \<and> (\<exists>n. d_id (heap st2 (next_ref st + k))
                = derived_id sv e (ps ! k) @ ''_'' @ uuid1 sv n)"
      by blast
    with res p1 p2 show
      "\<exists>st'. process_duplicate self sv st (map Raw ps) e = Inr ((False, False), st')
              \<and> added st' = added st @ [[next_ref st ..< next_ref st + length ps]]
              \<and> d_id (heap st' (next_ref st + j)) \<noteq> d_id (heap st' (next_ref st + k))
              \<and> (\<exists>n. d_id (heap st' (next_ref st + k))
                     = derived_id sv e (ps ! k) @ ''_'' @ uuid1 sv n)"
      by (intro exI [of _ "persist st2 e ?dl"]) simp
  }
  {
    assume mode: "fix_duplicate_way self \<noteq> ''add''"
    have "\<not> distinct (map (derived_id sv e) ps)"
    proof
      assume "distinct (map (derived_id sv e) ps)"
      moreover have "j < length (map (derived_id sv e) ps)" "k < length (map (derived_id sv e) ps)"
        and "j \<noteq> k"
        using jk by simp_all
      ultimately have "map (derived_id sv e) ps ! j \<noteq> map (derived_id sv e) ps ! k"
        by (simp only: distinct_conv_nth) blast
      with jk same show False by simp
    qed
    then have "\<not> distinct (map (derived_id sv e) ps)
                 \<or> set (map (derived_id sv e) ps) \<inter> ids_of st [] \<noteq> {}" by simp
    from process_items_collision_aborts [OF mode fillid new fresh this, of True] obtain st' where
      "process_items self sv e (map Raw ps) True [] st = Inr (Aborted False st')"
      "added st' = added st" by blast
    then show "\<exists>st'. process_duplicate self sv st (map Raw ps) e = Inr ((True, False), st')
              \<and> added st' = added st"
      using ne by (simp add: process_duplicate_def)
  }
qed

lemma uuid1_services0_inj: "inj (uuid1 services0)"
proof (rule injI)
  fix m n :: nat
  assume "uuid1 services0 m = uuid1 services0 n"
  then have "length (replicate (Suc m) CHR ''u'') = length (replicate (Suc n) CHR ''u'')"
    by (simp add: services0_def)
  then show "m = n" by simp
qed

theorem same_derived_id_in_batch_witness:
  "counts_as_new services0 entity0 (Raw payload_day1)
   \<and> counts_as_new services0 entity0 (Raw payload_day1_again)
   \<and> (\<forall>x q. d_id (fill_domain_from_dict services0 x q) = d_id x)
   \<and> derived_id services0 entity0 ([payload_day1, payload_day1_again] ! 0)
       = derived_id services0 entity0 ([payload_day1, payload_day1_again] ! 1)
   \<and> inj (uuid1 services0)
   \<and> outcome (process_duplicate recorder0 services0 state0
        (map Raw [payload_day1, payload_day1_again]) entity0) = Inr (False, False)
   \<and> outcome (process_duplicate recorder_ignore services0 state0
        (map Raw [payload_day1, payload_day1_again]) entity0) = Inr (True, False)"
proof -
  have a: "\<forall>p\<in>set [payload_day1, payload_day1_again]. counts_as_new services0 entity0 (Raw p)"
    by (simp add: counts_as_new_def generate_domain_id_def example_defs payload_defs)
  have b: "\<forall>x q. d_id (fill_domain_from_dict services0 x q) = d_id x"
    by (simp add: example_defs)
  have c: "(0::nat) < 1" and d: "1 < length [payload_day1, payload_day1_again]" by simp_all
  have s: "derived_id services0 entity0 ([payload_day1, payload_day1_again] ! 0)
             = derived_id services0 entity0 ([payload_day1, payload_day1_again] ! 1)"
    by (simp add: derived_id_def generate_domain_id_def example_defs payload_defs)
  have m1: "fix_duplicate_way recorder0 = ''add'' \<and> inj (uuid1 services0)"
    using uuid1_services0_inj by (simp add: example_defs)
  have m2: "fix_duplicate_way recorder_ignore \<noteq> ''add''"
    by (simp add: example_defs batch_defs)
  from same_derived_id_in_batch [OF a b c d s, of recorder0 state0] m1
  have r1: "outcome (process_duplicate recorder0 services0 state0
        (map Raw [payload_day1, payload_day1_again]) entity0) = Inr (False, False)"
    by (auto simp add: outcome_def)
  from same_derived_id_in_batch [OF a b c d s, of recorder_ignore state0] m2
  have r2: "outcome (process_duplicate recorder_ignore services0 state0
        (map Raw [payload_day1, payload_day1_again]) entity0) = Inr (True, False)"
    by (auto simp add: outcome_def)
  from a b s r1 r2 uuid1_services0_inj show ?thesis by simp
qed

section \<open>Force update on records that the store holds\<close>

lemma existing_ref_Some:
  assumes "existing_ref sv e p = Some r"
  obtains the_id rs where "generate_domain_id sv e p = Inr the_id"
    and "get_data_by_id sv (e_id e) the_id = r # rs"
  using assms
  by (auto simp add: existing_ref_def split: sum.splits list.splits)

lemma generate_domain_existing:
  assumes "force_update self" and "existing_ref sv e p = Some r"
  shows "generate_domain self sv st e (Raw p) = Inr ((False, Some r), fill_item sv st r p)"
proof -
  from assms(2) obtain the_id rs where "generate_domain_id sv e p = Inr the_id"
    and "get_data_by_id sv (e_id e) the_id = r # rs"
    by (rule existing_ref_Some)
  with assms(1) show ?thesis by (simp add: generate_domain_def)
qed

lemma existing_refs_Cons:
  "existing_ref sv e p = Some r \<Longrightarrow> existing_refs sv e (p # ps) = r # existing_refs sv e ps"
  by (simp add: existing_refs_def map_filter_simps)

lemma existing_refs_length:
  "\<forall>p\<in>set ps. existing_ref sv e p \<noteq> None \<Longrightarrow> length (existing_refs sv e ps) = length ps"
  by (induction ps) (auto simp add: existing_refs_def map_filter_simps)

lemma process_items_existing_add:
  assumes force: "force_update self" and mode: "fix_duplicate_way self = ''add''"
  shows "\<forall>p\<in>set ps. existing_ref sv e p \<noteq> None \<Longrightarrow>
     \<exists>st'. process_items self sv e (map Raw ps) ad dl st
              = Inr (Completed ad (dl @ existing_refs sv e ps) st')
        \<and> added st' = added st"
proof (induction ps arbitrary: dl st)
  case Nil
  then show ?case by (simp add: existing_refs_def map_filter_simps)
next
  case (Cons p ps)
  then obtain r where r: "existing_ref sv e p = Some r" by auto
  have gd: "generate_domain self sv st e (Raw p) = Inr ((False, Some r), fill_item sv st r p)"
    using force r by (rule generate_domain_existing)
  let ?st1 = "fill_item sv st r p"
  have rest: "\<forall>p\<in>set ps. existing_ref sv e p \<noteq> None" using Cons.prems by simp
  show ?case
  proof (cases "filter (\<lambda>item. d_id (heap ?st1 item) = d_id (heap ?st1 r)) dl \<noteq> []")
    case True
    from Cons.IH [OF rest, of "dl @ [r]" "regenerate_id sv ?st1 r"] obtain st' where
      "process_items self sv e (map Raw ps) ad (dl @ [r]) (regenerate_id sv ?st1 r)
         = Inr (Completed ad ((dl @ [r]) @ existing_refs sv e ps) st')"
      "added st' = added (regenerate_id sv ?st1 r)" by blast
    with gd True mode r show ?thesis
      by (simp add: existing_refs_Cons regenerate_id_def fill_item_def)
  next
    case False
    from Cons.IH [OF rest, of "dl @ [r]" ?st1] obtain st' where
      "process_items self sv e (map Raw ps) ad (dl @ [r]) ?st1
         = Inr (Completed ad ((dl @ [r]) @ existing_refs sv e ps) st')"
      "added st' = added ?st1" by blast
    with gd False r show ?thesis
      by (simp add: existing_refs_Cons fill_item_def)
  qed
qed

lemma process_items_existing_distinct:
  assumes force: "force_update self"
    and fillid: "\<forall>x q. d_id (fill_domain_from_dict sv x q) = d_id x"
  shows "\<forall>p\<in>set ps. existing_ref sv e p \<noteq> None \<Longrightarrow>
     distinct (map (\<lambda>r. d_id (heap st r)) (dl @ existing_refs sv e ps)) \<Longrightarrow>
     \<exists>st'. process_items self sv e (map Raw ps) ad dl st
              = Inr (Completed ad (dl @ existing_refs sv e ps) st')
        \<and> added st' = added st
        \<and> (\<forall>r. r \<notin> set (existing_refs sv e ps) \<longrightarrow> heap st' r = heap st r)
        \<and> (\<forall>k < length ps. heap st' (existing_refs sv e ps ! k)
               = fill_domain_from_dict sv (heap st (existing_refs sv e ps ! k)) (ps ! k))"
proof (induction ps arbitrary: dl st)
  case Nil
  then show ?case by (simp add: existing_refs_def map_filter_simps)
next
  case (Cons p ps)
  then obtain r where r: "existing_ref sv e p = Some r" by auto
  let ?refs = "existing_refs sv e ps"
  have refs: "existing_refs sv e (p # ps) = r # ?refs" using r by (rule existing_refs_Cons)
  have rest: "\<forall>p\<in>set ps. existing_ref sv e p \<noteq> None" using Cons.prems(1) by simp
  have len: "length ?refs = length ps" using rest by (rule existing_refs_length)
  have gd: "generate_domain self sv st e (Raw p) = Inr ((False, Some r), fill_item sv st r p)"
    using force r by (rule generate_domain_existing)
  let ?st1 = "fill_item sv st r p"
  have ids1: "d_id (heap ?st1 x) = d_id (heap st x)" for x
    using fillid by (simp add: fill_item_def)
  have dist: "distinct (map (\<lambda>x. d_id (heap st x)) (dl @ r # ?refs))"
    using Cons.prems(2) refs by simp
  then have nocoll: "d_id (heap st r) \<notin> (\<lambda>x. d_id (heap st x)) ` set dl"
    and notin: "r \<notin> set ?refs"
    by auto
  have "ids_of ?st1 dl = ids_of st dl" by (simp add: ids_of_def ids1)
  then have "filter (\<lambda>item. d_id (heap ?st1 item) = d_id (heap ?st1 r)) dl = []"
    using collision_iff [of ?st1 r dl] nocoll by (simp add: ids1 ids_of_def)
  with gd have run: "process_items self sv e (map Raw (p # ps)) ad dl st
                       = process_items self sv e (map Raw ps) ad (dl @ [r]) ?st1"
    by simp
  have "distinct (map (\<lambda>x. d_id (heap ?st1 x)) ((dl @ [r]) @ ?refs))"
    using dist by (simp add: ids1)
  from Cons.IH [OF rest this] obtain st' where
    res: "process_items self sv e (map Raw ps) ad (dl @ [r]) ?st1
            = Inr (Completed ad ((dl @ [r]) @ ?refs) st')"
    and a: "added st' = added ?st1"
    and h: "\<forall>x. x \<notin> set ?refs \<longrightarrow> heap st' x = heap ?st1 x"
    and f: "\<forall>k < length ps. heap st' (?refs ! k)
               = fill_domain_from_dict sv (heap ?st1 (?refs ! k)) (ps ! k)"
    by blast
  have c1: "process_items self sv e (map Raw (p # ps)) ad dl st
              = Inr (Completed ad (dl @ existing_refs sv e (p # ps)) st')"
    using run res refs by simp
  have c2: "added st' = added st" using a by (simp add: fill_item_def)
  have c3: "\<forall>x. x \<notin> set (existing_refs sv e (p # ps)) \<longrightarrow> heap st' x = heap st x"
    using h refs by (simp add: fill_item_def)
  have c4: "\<forall>k < length (p # ps). heap st' (existing_refs sv e (p # ps) ! k)
               = fill_domain_from_dict sv (heap st (existing_refs sv e (p # ps) ! k)) ((p # ps) ! k)"
  proof (intro allI impI)
    fix k
    assume k: "k < length (p # ps)"
    show "heap st' (existing_refs sv e (p # ps) ! k)
            = fill_domain_from_dict sv (heap st (existing_refs sv e (p # ps) ! k)) ((p # ps) ! k)"
    proof (cases k)
      case 0
      with h notin refs show ?thesis by (simp add: fill_item_def)
    next
      case (Suc k')
      with k have k': "k' < length ps" by simp
      then have "?refs ! k' \<in> set ?refs" using len by simp
      with notin have "?refs ! k' \<noteq> r" by auto
      then have "heap ?st1 (?refs ! k') = heap st (?refs ! k')" by (simp add: fill_item_def)
      with f k' Suc refs show ?thesis by simp
    qed
  qed
  from c1 c2 c3 c4 show ?case by blast
qed

text \<open>
  C10, as stated, fails: under force update with a mode other than \<open>add\<close>, two raw records
  for the same stored id end the batch at the collision, and nothing is saved.
\<close>

theorem force_update_collision_saves_nothing:
  "outcome (process_duplicate recorder_force services_stored state_stored
              [raw_day1, raw_day1_again] entity0) = Inr (True, True)
   \<and> saved_records (process_duplicate recorder_force services_stored state_stored
              [raw_day1, raw_day1_again] entity0) = []"
  by (simp add: saved_records_def reconcile_defs example_defs batch_defs stored_defs)

text \<open>
  C10, amended. Under force update, take a non-empty batch of raw records whose derived ids
  are all held by the store, and let the mode be \<open>add\<close> or let the stored records have
  pairwise different ids that the field mapping leaves alone. Then the stored records are
  saved as one batch, none counts as new and the batch is reported as all duplicated, so
  that completion detection treats the cycle like an empty fetch. When the ids are pairwise
  different, each stored record is the old one overlaid with the fields of its raw record.
\<close>

theorem force_update_all_existing:
  assumes force: "force_update self"
    and existing: "\<forall>p\<in>set ps. existing_ref sv e p \<noteq> None"
    and ne: "ps \<noteq> []"
  shows "fix_duplicate_way self = ''add''
           \<or> (\<forall>x q. d_id (fill_domain_from_dict sv x q) = d_id x)
               \<and> distinct (map (\<lambda>r. d_id (heap st r)) (existing_refs sv e ps))
         \<longrightarrow> (\<exists>st'. process_duplicate self sv st (map Raw ps) e = Inr ((False, True), st')
                \<and> added st' = added st @ [existing_refs sv e ps]
                \<and> process_realtime self st' e (map Raw ps) True now
                    = process_realtime self st' e [] False now
                \<and> ((\<forall>x q. d_id (fill_domain_from_dict sv x q) = d_id x)
                      \<and> distinct (map (\<lambda>r. d_id (heap st r)) (existing_refs sv e ps))
                    \<longrightarrow> (\<forall>k < length ps. heap st' (existing_refs sv e ps ! k)
                           = fill_domain_from_dict sv (heap st (existing_refs sv e ps ! k)) (ps ! k))))"
proof
  let ?refs = "existing_refs sv e ps"
  let ?nocoll = "(\<forall>x q. d_id (fill_domain_from_dict sv x q) = d_id x)
                   \<and> distinct (map (\<lambda>r. d_id (heap st r)) ?refs)"
  assume h: "fix_duplicate_way self = ''add'' \<or> ?nocoll"
  have len: "length ?refs = length ps" using existing by (rule existing_refs_length)
  with ne have refs_ne: "?refs \<noteq> []" by auto
  have "\<exists>st2. process_items self sv e (map Raw ps) True [] st = Inr (Completed True ?refs st2)
          \<and> added st2 = added st
          \<and> (?nocoll \<longrightarrow> (\<forall>k < length ps. heap st2 (?refs ! k)
                 = fill_domain_from_dict sv (heap st (?refs ! k)) (ps ! k)))"
  proof (cases ?nocoll)
    case True
    then have fillid: "\<forall>x q. d_id (fill_domain_from_dict sv x q) = d_id x"
      and dist: "distinct (map (\<lambda>r. d_id (heap st r)) ([] @ ?refs))" by simp_all
    from process_items_existing_distinct [OF force fillid existing dist, of True]
    show ?thesis by auto
  next
    case False
    with h have mode: "fix_duplicate_way self = ''add''" by blast
    from process_items_existing_add [OF force mode existing, of True "[]" st] False
    show ?thesis by auto
  qed
  then obtain st2 where
    run: "process_items self sv e (map Raw ps) True [] st = Inr (Completed True ?refs st2)"
    and a: "added st2 = added st"
    and overlay: "?nocoll \<longrightarrow> (\<forall>k < length ps. heap st2 (?refs ! k)
                 = fill_domain_from_dict sv (heap st (?refs ! k)) (ps ! k))"
    by blast
  let ?st' = "persist st2 e ?refs"
  have res: "process_duplicate self sv st (map Raw ps) e = Inr ((False, True), ?st')"
    using run ne refs_ne by (simp add: process_duplicate_def)
  have p1: "added ?st' = added st @ [?refs]"
    using a refs_ne by (simp add: persist_def split: prod.splits)
  have p2: "heap ?st' = heap st2" by (simp add: persist_def split: prod.splits)
  have p3: "process_realtime self ?st' e (map Raw ps) True now
              = process_realtime self ?st' e [] False now"
    by (simp add: process_realtime_def)
  from res p1 p2 p3 overlay
  show "\<exists>st'. process_duplicate self sv st (map Raw ps) e = Inr ((False, True), st')
          \<and> added st' = added st @ [?refs]
          \<and> process_realtime self st' e (map Raw ps) True now
              = process_realtime self st' e [] False now
          \<and> (?nocoll \<longrightarrow> (\<forall>k < length ps. heap st' (?refs ! k)
                 = fill_domain_from_dict sv (heap st (?refs ! k)) (ps ! k)))"
    by (intro exI [of _ ?st']) simp
qed

theorem force_update_all_existing_witness:
  "force_update recorder_force
   \<and> existing_ref services_stored entity0 payload_day1 \<noteq> None
   \<and> existing_ref services_stored entity0 payload_day2 \<noteq> None
   \<and> existing_refs services_stored entity0 [payload_day1, payload_day2] = [0, 1]
   \<and> distinct (map (\<lambda>r. d_id (heap state_stored r)) [0, 1])
   \<and> outcome (process_duplicate recorder_force services_stored state_stored
        (map Raw [payload_day1, payload_day2]) entity0) = Inr (False, True)
   \<and> saved_records (process_duplicate recorder_force services_stored state_stored
        (map Raw [payload_day1, payload_day2]) entity0)
       = [blank\<lparr>d_id := ''stock_sz_000001_1970-01-01'', d_fields := payload_day1\<rparr>,
          blank\<lparr>d_id := ''stock_sz_000001_1970-01-02'', d_fields := payload_day2\<rparr>]"
proof -
  have a: "force_update recorder_force" by (simp add: example_defs stored_defs)
  have b: "\<forall>p\<in>set [payload_day1, payload_day2]. existing_ref services_stored entity0 p \<noteq> None"
    by (simp add: existing_ref_def generate_domain_id_def example_defs stored_defs payload_defs)
  have c: "[payload_day1, payload_day2] \<noteq> []" by simp
  have r: "existing_refs services_stored entity0 [payload_day1, payload_day2] = [0, 1]"
    by (simp add: existing_refs_def map_filter_simps existing_ref_def generate_domain_id_def
        example_defs stored_defs payload_defs)
  have d: "distinct (map (\<lambda>r. d_id (heap state_stored r)) [0, 1])"
    by (simp add: example_defs stored_defs)
  have f: "\<forall>x q. d_id (fill_domain_from_dict services_stored x q) = d_id x"
    by (simp add: example_defs stored_defs)
  have s: "saved_records (process_duplicate recorder_force services_stored state_stored
        (map Raw [payload_day1, payload_day2]) entity0)
       = [blank\<lparr>d_id := ''stock_sz_000001_1970-01-01'', d_fields := payload_day1\<rparr>,
          blank\<lparr>d_id := ''stock_sz_000001_1970-01-02'', d_fields := payload_day2\<rparr>]"
    by (simp add: saved_records_def reconcile_defs example_defs stored_defs payload_defs)
  from force_update_all_existing [OF a b c, of state_stored "at_time 16 0"] r d f
  have "outcome (process_duplicate recorder_force services_stored state_stored
        (map Raw [payload_day1, payload_day2]) entity0) = Inr (False, True)"
    by (auto simp add: outcome_def)
  with a b r d s show ?thesis by simp
qed

end
